theory Spec2Isabelle
  imports Main "HOL-Library.AList"
begin

section \<open>Python values, exceptions and logging\<close>

text \<open>
  The exceptions that occur in \<^verbatim>\<open>homeassistant/components/zwave_js/__init__.py\<close>.
  \<open>CancelledError\<close> is the one class outside \<open>Exception\<close>; every other constructor
  is a subclass of \<open>Exception\<close>, and \<open>InvalidServerVersion\<close> is a subclass of
  \<open>BaseZwaveJSServerError\<close>.
\<close>

datatype py_error =
    CancelledError
  | BaseZwaveJSServerError
  | InvalidServerVersion
  | AddonError
  | ConfigEntryNotReady
  | AttributeError
  | OtherException string

fun is_zwave_js_server_error :: "py_error \<Rightarrow> bool" where
  "is_zwave_js_server_error BaseZwaveJSServerError = True"
| "is_zwave_js_server_error InvalidServerVersion = True"
| "is_zwave_js_server_error _ = False"

datatype log_level = LogDebug | LogInfo | LogError | LogException

text \<open>The values a notification can carry: \<open>None\<close>, booleans, integers and strings.\<close>

datatype pyval = PyNone | PyBool bool | PyInt int | PyStr string

fun str_nat :: "nat \<Rightarrow> string" where
  "str_nat n =
     (if n < 10 then [''0123456789'' ! n]
      else str_nat (n div 10) @ [''0123456789'' ! (n mod 10)])"

declare str_nat.simps [simp del]

definition str_int :: "int \<Rightarrow> string" where
  "str_int i = (if i < 0 then ''-'' @ str_nat (nat (- i)) else str_nat (nat i))"

text \<open>Python's \<^verbatim>\<open>str(value)\<close>.\<close>

fun py_str :: "pyval \<Rightarrow> string" where
  "py_str PyNone = ''None''"
| "py_str (PyBool b) = (if b then ''True'' else ''False'')"
| "py_str (PyInt i) = str_int i"
| "py_str (PyStr s) = s"

text \<open>Truthiness of an optional string: \<open>None\<close> and the empty string are falsy.\<close>

fun truthy :: "string option \<Rightarrow> bool" where
  "truthy None = False"
| "truthy (Some s) = (s \<noteq> [])"

section \<open>Nodes, the client and the config entry\<close>

record device_config =
  description :: "string option"
  dc_label :: "string option"
  manufacturer :: "string option"

record zwave_node =
  node_id :: nat
  ready :: bool
  firmware_version :: "string option"
  node_name :: "string option"
  node_device_config :: device_config
  location :: "string option"
  node_values :: "string list"

text \<open>
  The client as the handlers read it: \<^verbatim>\<open>client.driver.controller.home_id\<close>,
  \<^verbatim>\<open>client.driver.controller.nodes.values()\<close> and \<^verbatim>\<open>client.connected\<close>.
\<close>

record zwave_client =
  home_id :: nat
  nodes :: "zwave_node list"
  connected :: bool

record config_entry =
  entry_id :: string
  usb_path :: string
  network_key :: string

definition DOMAIN :: string where
  "DOMAIN = ''zwave_js''"

section \<open>The device registry\<close>

type_synonym dev_identifier = "nat \<times> nat"

text \<open>
  Modelled from the spec: \<^verbatim>\<open>get_device_id\<close> lives in \<^verbatim>\<open>helpers.py\<close>, which is not
  among the source files. The spec gives a node the identity "home id + node id".
\<close>

definition get_device_id :: "zwave_client \<Rightarrow> zwave_node \<Rightarrow> dev_identifier" where
  "get_device_id client node = (home_id client, node_id node)"

text \<open>
  Modelled from the spec: a device of the registry, with the fields that
  \<^verbatim>\<open>register_node_in_dev_reg\<close> sets. The real ids are random strings.
\<close>

record device_entry =
  dev_id :: nat
  config_entries :: "string set"
  identifiers :: "dev_identifier set"
  sw_version :: "string option"
  dev_name :: string
  model :: "string option"
  dev_manufacturer :: "string option"
  suggested_area :: "string option"

text \<open>The registry keeps its devices in a dict keyed by device id, in insertion order.\<close>

record device_registry =
  devices :: "device_entry list"

record device_params =
  p_config_entry_id :: string
  p_identifiers :: "dev_identifier set"
  p_sw_version :: "string option"
  p_name :: string
  p_model :: "string option"
  p_manufacturer :: "string option"
  p_suggested_area :: "string option"

text \<open>
  Modelled from the spec: the device registry (\<^verbatim>\<open>homeassistant.helpers.device_registry\<close>)
  is not among the source files. The spec names its interface
  \<^verbatim>\<open>getDevice(identitySet) -> Device?\<close>: the device that carries one of the identifiers,
  if there is one.
\<close>

definition async_get_device :: "device_registry \<Rightarrow> dev_identifier set \<Rightarrow> device_entry option" where
  "async_get_device reg ids = find (\<lambda>d. identifiers d \<inter> ids \<noteq> {}) (devices reg)"

text \<open>
  Modelled from the spec: a new device needs an id that no device of the registry has
  (the registry draws a random one); the model takes the successor of the largest.
\<close>

definition fresh_dev_id :: "device_entry list \<Rightarrow> nat" where
  "fresh_dev_id ds = Suc (foldr max (map dev_id ds) 0)"

text \<open>
  Modelled from the spec: the device that \<^verbatim>\<open>getOrCreate(deviceParams)\<close> creates when no
  device carries one of the identifiers.
\<close>

definition new_device :: "device_entry list \<Rightarrow> device_params \<Rightarrow> device_entry" where
  "new_device ds params =
     \<lparr>dev_id = fresh_dev_id ds,
      config_entries = {p_config_entry_id params},
      identifiers = p_identifiers params,
      sw_version = p_sw_version params,
      dev_name = p_name params,
      model = p_model params,
      dev_manufacturer = p_manufacturer params,
      suggested_area = p_suggested_area params\<rparr>"

text \<open>
  Modelled from the spec: the device that \<^verbatim>\<open>getOrCreate(deviceParams)\<close> makes of an
  existing one, "same identity \<open>\<Rightarrow>\<close> same record, fields overwritten, never
  duplicated". A parameter the caller leaves out (\<open>suggested_area\<close> when the node has
  no location) leaves the field as it is.
\<close>

definition updated_device :: "device_entry \<Rightarrow> device_params \<Rightarrow> device_entry" where
  "updated_device old params =
     old\<lparr>config_entries := insert (p_config_entry_id params) (config_entries old),
         identifiers := identifiers old \<union> p_identifiers params,
         sw_version := p_sw_version params,
         dev_name := p_name params,
         model := p_model params,
         dev_manufacturer := p_manufacturer params,
         suggested_area :=
           (case p_suggested_area params of
              None \<Rightarrow> suggested_area old
            | Some a \<Rightarrow> Some a)\<rparr>"

text \<open>
  Modelled from the spec: \<^verbatim>\<open>getOrCreate(deviceParams) -> Device\<close>. The device found
  by the identifiers is replaced under its id; a new device goes to the end.
\<close>

definition async_get_or_create ::
  "device_registry \<Rightarrow> device_params \<Rightarrow> device_entry \<times> device_registry" where
  "async_get_or_create reg params =
     (case async_get_device reg (p_identifiers params) of
        None \<Rightarrow>
          (new_device (devices reg) params,
           reg\<lparr>devices := devices reg @ [new_device (devices reg) params]\<rparr>)
      | Some old \<Rightarrow>
          (updated_device old params,
           reg\<lparr>devices :=
                 map (\<lambda>x. if dev_id x = dev_id old then updated_device old params else x)
                   (devices reg)\<rparr>))"

text \<open>Modelled from the spec: \<^verbatim>\<open>remove(deviceId)\<close>.\<close>

definition async_remove_device :: "device_registry \<Rightarrow> nat \<Rightarrow> device_registry" where
  "async_remove_device reg i = reg\<lparr>devices := filter (\<lambda>d. dev_id d \<noteq> i) (devices reg)\<rparr>"

text \<open>Modelled from the spec: \<^verbatim>\<open>entriesForEntry(entryId) -> set<Device>\<close>.\<close>

definition async_entries_for_config_entry :: "device_registry \<Rightarrow> string \<Rightarrow> device_entry list" where
  "async_entries_for_config_entry reg e = filter (\<lambda>d. e \<in> config_entries d) (devices reg)"

text \<open>
  What the registry keeps true of itself: device ids are the keys of its dict, and an
  identifier belongs to one device.
\<close>

definition registry_ok :: "device_registry \<Rightarrow> bool" where
  "registry_ok reg \<longleftrightarrow>
     distinct (map dev_id (devices reg)) \<and>
     (\<forall>d1 \<in> set (devices reg). \<forall>d2 \<in> set (devices reg).
        d1 = d2 \<or> identifiers d1 \<inter> identifiers d2 = {})"

section \<open>Notifications and the events published for them\<close>

record value_metadata =
  vm_label :: "string option"
  states :: "(string \<times> string) list"

record value_notification =
  vn_node :: zwave_node
  vn_endpoint :: "nat option"
  vn_command_class :: nat
  vn_command_class_name :: string
  vn_metadata :: value_metadata
  vn_property :: pyval
  vn_property_name :: "string option"
  vn_property_key :: pyval
  vn_property_key_name :: "string option"
  vn_value :: pyval

record value_notification_event =
  ATTR_DOMAIN :: string
  ATTR_NODE_ID :: nat
  ATTR_HOME_ID :: nat
  ATTR_ENDPOINT :: "nat option"
  ATTR_DEVICE_ID :: nat
  ATTR_COMMAND_CLASS :: nat
  ATTR_COMMAND_CLASS_NAME :: string
  ATTR_LABEL :: "string option"
  ATTR_PROPERTY :: pyval
  ATTR_PROPERTY_NAME :: "string option"
  ATTR_PROPERTY_KEY :: pyval
  ATTR_PROPERTY_KEY_NAME :: "string option"
  ATTR_VALUE :: pyval
  ATTR_VALUE_RAW :: pyval

record entry_control_notification =
  ec_node :: zwave_node
  ec_command_class :: nat
  ec_event_type :: nat
  ec_data_type :: nat
  ec_event_data :: pyval

record notification_notification =
  nn_node :: zwave_node
  nn_command_class :: nat
  nn_label :: string
  nn_type :: nat
  nn_event :: nat
  nn_event_label :: string
  nn_parameters :: "(string \<times> pyval) list"

datatype notification =
    EntryControlNotification entry_control_notification
  | NotificationNotification notification_notification

fun notification_node :: "notification \<Rightarrow> zwave_node" where
  "notification_node (EntryControlNotification n) = ec_node n"
| "notification_node (NotificationNotification n) = nn_node n"

fun notification_command_class :: "notification \<Rightarrow> nat" where
  "notification_command_class (EntryControlNotification n) = ec_command_class n"
| "notification_command_class (NotificationNotification n) = nn_command_class n"

text \<open>The fields that \<^verbatim>\<open>event_data.update\<close> adds, one shape per kind of notification.\<close>

datatype notification_fields =
    EntryControlFields string nat nat pyval
  | NotificationFields string string nat nat string "(string \<times> pyval) list"

record notification_event =
  NE_DOMAIN :: string
  NE_NODE_ID :: nat
  NE_HOME_ID :: nat
  NE_DEVICE_ID :: nat
  NE_COMMAND_CLASS :: nat
  NE_FIELDS :: notification_fields

datatype bus_event =
    ZWAVE_JS_VALUE_NOTIFICATION_EVENT value_notification_event
  | ZWAVE_JS_NOTIFICATION_EVENT notification_event

section \<open>The session state of one config entry\<close>

text \<open>
  A discovery descriptor as the handlers read it: its platform, and the value it was
  made from.
\<close>

record disc_info =
  platform :: string
  primary_value :: string

text \<open>
  What \<^verbatim>\<open>async_dispatcher_send\<close> sends: the device signal of
  \<^verbatim>\<open>register_node_in_dev_reg\<close>, and the entity-discovered signal, whose name is
  \<^verbatim>\<open>f"{DOMAIN}_{entry.entry_id}_add_{disc_info.platform}"\<close>.
\<close>

datatype signal =
    EVENT_DEVICE_ADDED_TO_REGISTRY device_entry
  | EntityDiscovered string disc_info

text \<open>A platform-setup task: still pending, or finished with a result or an exception.\<close>

datatype setup_task = TaskPending | TaskDone "py_error + bool"

datatype listener = ValueNotificationListener nat | NotificationListener nat

text \<open>
  The variables that the handlers of \<^verbatim>\<open>async_setup_entry\<close> close over and change:
  the device registry, the event bus, the dispatcher, the values handed to the
  migration, \<^verbatim>\<open>entry_hass_data[DATA_PLATFORM_SETUP]\<close> (a dict, in insertion order),
  \<^verbatim>\<open>unsubscribe_callbacks\<close>, and the nodes with a pending \<^verbatim>\<open>node.once("ready", ...)\<close>.
\<close>

record session =
  dev_reg :: device_registry
  bus :: "bus_event list"
  dispatcher :: "signal list"
  migrated :: "disc_info list"
  platform_setup_tasks :: "(string \<times> setup_task) list"
  unsubscribe_callbacks :: "listener list"
  ready_waiters :: "nat list"

text \<open>
  The collaborators that are parameters of the model: the discovery function
  (\<^verbatim>\<open>async_discover_values\<close>, pure) and how the setup of a platform ends
  (\<^verbatim>\<open>hass.config_entries.async_forward_entry_setup\<close>).
\<close>

record env =
  async_discover_values :: "zwave_node \<Rightarrow> disc_info list"
  async_forward_entry_setup :: "string \<Rightarrow> py_error + bool"

section \<open>NotificationRelay\<close>

definition async_on_value_notification ::
  "zwave_client \<Rightarrow> value_notification \<Rightarrow> session \<Rightarrow> (py_error + unit) \<times> session" where
  "async_on_value_notification client notification s =
     (let device = async_get_device (dev_reg s) {get_device_id client (vn_node notification)};
          raw_value = vn_value notification;
          value = (if states (vn_metadata notification) \<noteq> []
                   then (case map_of (states (vn_metadata notification)) (py_str raw_value) of
                           Some decoded \<Rightarrow> PyStr decoded
                         | None \<Rightarrow> raw_value)
                   else raw_value)
      in case device of
           None \<Rightarrow> (Inl AttributeError, s)
         | Some d \<Rightarrow>
             (Inr (),
              s\<lparr>bus := bus s @ [ZWAVE_JS_VALUE_NOTIFICATION_EVENT
                \<lparr>ATTR_DOMAIN = DOMAIN,
                 ATTR_NODE_ID = node_id (vn_node notification),
                 ATTR_HOME_ID = home_id client,
                 ATTR_ENDPOINT = vn_endpoint notification,
                 ATTR_DEVICE_ID = dev_id d,
                 ATTR_COMMAND_CLASS = vn_command_class notification,
                 ATTR_COMMAND_CLASS_NAME = vn_command_class_name notification,
                 ATTR_LABEL = vm_label (vn_metadata notification),
                 ATTR_PROPERTY = vn_property notification,
                 ATTR_PROPERTY_NAME = vn_property_name notification,
                 ATTR_PROPERTY_KEY = vn_property_key notification,
                 ATTR_PROPERTY_KEY_NAME = vn_property_key_name notification,
                 ATTR_VALUE = value,
                 ATTR_VALUE_RAW = raw_value\<rparr>]\<rparr>))"

definition async_on_notification ::
  "zwave_client \<Rightarrow> notification \<Rightarrow> session \<Rightarrow> (py_error + unit) \<times> session" where
  "async_on_notification client notification s =
     (let device = async_get_device (dev_reg s) {get_device_id client (notification_node notification)}
      in case device of
           None \<Rightarrow> (Inl AttributeError, s)
         | Some d \<Rightarrow>
             (let fields =
                (case notification of
                   EntryControlNotification n \<Rightarrow>
                     EntryControlFields ''Entry Control''
                       (ec_event_type n) (ec_data_type n) (ec_event_data n)
                 | NotificationNotification n \<Rightarrow>
                     NotificationFields ''Notification''
                       (nn_label n) (nn_type n) (nn_event n) (nn_event_label n) (nn_parameters n))
              in (Inr (),
                  s\<lparr>bus := bus s @ [ZWAVE_JS_NOTIFICATION_EVENT
                    \<lparr>NE_DOMAIN = DOMAIN,
                     NE_NODE_ID = node_id (notification_node notification),
                     NE_HOME_ID = home_id client,
                     NE_DEVICE_ID = dev_id d,
                     NE_COMMAND_CLASS = notification_command_class notification,
                     NE_FIELDS = fields\<rparr>]\<rparr>)))"

section \<open>DeviceRegistrySync: node removal\<close>

definition async_on_node_removed ::
  "zwave_client \<Rightarrow> zwave_node \<Rightarrow> session \<Rightarrow> (py_error + unit) \<times> session" where
  "async_on_node_removed client node s =
     (let dev_id' = get_device_id client node;
          device = async_get_device (dev_reg s) {dev_id'}
      in case device of
           None \<Rightarrow> (Inl AttributeError, s)
         | Some d \<Rightarrow> (Inr (), s\<lparr>dev_reg := async_remove_device (dev_reg s) (dev_id d)\<rparr>))"

section \<open>NodeReadinessCoordinator and DiscoveryReconciler\<close>

text \<open>Python's \<^verbatim>\<open>a or b\<close> on an optional string \<open>a\<close> and a string \<open>b\<close>.\<close>

fun py_or :: "string option \<Rightarrow> string \<Rightarrow> string" where
  "py_or None d = d"
| "py_or (Some a) d = (if a \<noteq> [] then a else d)"

text \<open>The \<^verbatim>\<open>params\<close> dict of \<^verbatim>\<open>register_node_in_dev_reg\<close>.\<close>

definition node_params :: "config_entry \<Rightarrow> zwave_client \<Rightarrow> zwave_node \<Rightarrow> device_params" where
  "node_params entry client node =
     \<lparr>p_config_entry_id = entry_id entry,
      p_identifiers = {get_device_id client node},
      p_sw_version = firmware_version node,
      p_name = py_or (node_name node)
                 (py_or (description (node_device_config node))
                    (''Node '' @ str_nat (node_id node))),
      p_model = dc_label (node_device_config node),
      p_manufacturer = manufacturer (node_device_config node),
      p_suggested_area = (if truthy (location node) then location node else None)\<rparr>"

definition register_node_in_dev_reg ::
  "config_entry \<Rightarrow> zwave_client \<Rightarrow> zwave_node \<Rightarrow> session \<Rightarrow> session" where
  "register_node_in_dev_reg entry client node s =
     (let (device, reg) = async_get_or_create (dev_reg s) (node_params entry client node)
      in s\<lparr>dev_reg := reg,
           dispatcher := dispatcher s @ [EVENT_DEVICE_ADDED_TO_REGISTRY device]\<rparr>)"

text \<open>
  \<^verbatim>\<open>await platform_setup_tasks[disc_info.platform]\<close>, run to its end: a pending task
  finishes as the environment says, a finished task gives its result again, and an
  exception of the task is raised in the awaiting handler.
\<close>

definition await_platform_setup ::
  "env \<Rightarrow> string \<Rightarrow> session \<Rightarrow> (py_error + bool) \<times> session" where
  "await_platform_setup e p s =
     (case map_of (platform_setup_tasks s) p of
        None \<Rightarrow> (Inl (OtherException ''KeyError''), s)
      | Some (TaskDone r) \<Rightarrow> (r, s)
      | Some TaskPending \<Rightarrow>
          (async_forward_entry_setup e p,
           s\<lparr>platform_setup_tasks :=
               AList.update p (TaskDone (async_forward_entry_setup e p)) (platform_setup_tasks s)\<rparr>))"

text \<open>
  \<^verbatim>\<open>async_dispatcher_send(hass, f"{DOMAIN}_{entry.entry_id}_add_{disc_info.platform}", disc_info)\<close>
\<close>

definition entity_discovered :: "config_entry \<Rightarrow> disc_info \<Rightarrow> signal" where
  "entity_discovered entry d =
     EntityDiscovered (DOMAIN @ ''_'' @ entry_id entry @ ''_add_'' @ platform d) d"

text \<open>The body of \<^verbatim>\<open>for disc_info in async_discover_values(node)\<close>.\<close>

fun discovery_loop ::
  "env \<Rightarrow> config_entry \<Rightarrow> disc_info list \<Rightarrow> session \<Rightarrow> (py_error + unit) \<times> session" where
  "discovery_loop e entry [] s = (Inr (), s)"
| "discovery_loop e entry (d # ds) s =
     (let s1 = s\<lparr>migrated := migrated s @ [d]\<rparr>;
          s2 = (if platform d \<notin> fst ` set (platform_setup_tasks s1)
                then s1\<lparr>platform_setup_tasks := platform_setup_tasks s1 @ [(platform d, TaskPending)]\<rparr>
                else s1);
          (r, s3) = await_platform_setup e (platform d) s2
      in case r of
           Inl err \<Rightarrow> (Inl err, s3)
         | Inr _ \<Rightarrow>
             discovery_loop e entry ds
               (s3\<lparr>dispatcher := dispatcher s3 @ [entity_discovered entry d]\<rparr>))"

definition async_on_node_ready ::
  "env \<Rightarrow> config_entry \<Rightarrow> zwave_client \<Rightarrow> zwave_node \<Rightarrow> session \<Rightarrow> (py_error + unit) \<times> session" where
  "async_on_node_ready e entry client node s =
     (let s1 = register_node_in_dev_reg entry client node s;
          (r, s2) = discovery_loop e entry (async_discover_values e node) s1
      in case r of
           Inl err \<Rightarrow> (Inl err, s2)
         | Inr _ \<Rightarrow>
             (Inr (),
              s2\<lparr>unsubscribe_callbacks := unsubscribe_callbacks s2 @
                    [ValueNotificationListener (node_id node), NotificationListener (node_id node)]\<rparr>))"

definition async_on_node_added ::
  "env \<Rightarrow> config_entry \<Rightarrow> zwave_client \<Rightarrow> zwave_node \<Rightarrow> session \<Rightarrow> (py_error + unit) \<times> session" where
  "async_on_node_added e entry client node s =
     (if ready node then async_on_node_ready e entry client node s
      else (Inr (),
            register_node_in_dev_reg entry client node
              (s\<lparr>ready_waiters := ready_waiters s @ [node_id node]\<rparr>)))"

text \<open>
  The one-shot callbacks of a node that stay registered after the node's \<^verbatim>\<open>ready\<close>
  event. The library's \<^verbatim>\<open>emit\<close> walks the list of listeners while a callback
  registered with \<^verbatim>\<open>once\<close> takes itself out of that list before it runs; so of the
  callbacks of the node the first, the third and so on run, and the second, the fourth
  and so on are passed over and stay for the next event. The flag says whether the
  next callback of the node runs.
\<close>

fun emit_once :: "bool \<Rightarrow> nat \<Rightarrow> nat list \<Rightarrow> nat list" where
  "emit_once runs n [] = []"
| "emit_once runs n (w # ws) =
     (if w = n
      then (if runs then emit_once False n ws else w # emit_once True n ws)
      else w # emit_once runs n ws)"

text \<open>
  The tasks that the callbacks create, each running
  \<^verbatim>\<open>async_on_node_ready(event["node"])\<close>. They run one after the other here; an
  exception ends its own task only.
\<close>

fun run_ready_tasks ::
  "nat \<Rightarrow> env \<Rightarrow> config_entry \<Rightarrow> zwave_client \<Rightarrow> zwave_node \<Rightarrow> session \<Rightarrow> session" where
  "run_ready_tasks 0 e entry client node s = s"
| "run_ready_tasks (Suc k) e entry client node s =
     run_ready_tasks k e entry client node (snd (async_on_node_ready e entry client node s))"

text \<open>
  The node's \<^verbatim>\<open>ready\<close> event, as \<^verbatim>\<open>node.once("ready", ...)\<close> delivers it: of \<open>k\<close>
  callbacks registered for the node, \<open>(k + 1) div 2\<close> run and \<open>k div 2\<close> stay registered.
\<close>

definition node_ready_event ::
  "env \<Rightarrow> config_entry \<Rightarrow> zwave_client \<Rightarrow> zwave_node \<Rightarrow> session \<Rightarrow> session" where
  "node_ready_event e entry client node s =
     run_ready_tasks ((count_list (ready_waiters s) (node_id node) + 1) div 2) e entry client node
       (s\<lparr>ready_waiters := emit_once True (node_id node) (ready_waiters s)\<rparr>)"

text \<open>The entity-discovered signals and the device signals among what was dispatched.\<close>

fun entity_signals :: "signal list \<Rightarrow> (string \<times> disc_info) list" where
  "entity_signals [] = []"
| "entity_signals (EntityDiscovered n d # xs) = (n, d) # entity_signals xs"
| "entity_signals (EVENT_DEVICE_ADDED_TO_REGISTRY _ # xs) = entity_signals xs"

fun device_signals :: "signal list \<Rightarrow> device_entry list" where
  "device_signals [] = []"
| "device_signals (EVENT_DEVICE_ADDED_TO_REGISTRY d # xs) = d # device_signals xs"
| "device_signals (EntityDiscovered _ _ # xs) = device_signals xs"

section \<open>DeviceRegistrySync: stale devices at session start\<close>

text \<open>
  \<^verbatim>\<open>start_platforms\<close>, from "Check for nodes that no longer exist and remove them" to
  the end of the removal loop. \<open>known_devices\<close> holds \<open>None\<close> for a node without a
  device; \<^verbatim>\<open>device not in known_devices\<close> compares whole entries.
\<close>

definition remove_stale_devices :: "config_entry \<Rightarrow> zwave_client \<Rightarrow> session \<Rightarrow> session" where
  "remove_stale_devices entry client s =
     (let stored_devices = async_entries_for_config_entry (dev_reg s) (entry_id entry);
          known_devices =
            map (\<lambda>node. async_get_device (dev_reg s) {get_device_id client node}) (nodes client)
      in s\<lparr>dev_reg :=
            fold (\<lambda>device reg.
                    if Some device \<notin> set known_devices
                    then async_remove_device reg (dev_id device) else reg)
              stored_devices (dev_reg s)\<rparr>)"

section \<open>ConnectionSession: the listen task\<close>

text \<open>
  What \<^verbatim>\<open>client_listen\<close> changes: the tasks it creates for
  \<^verbatim>\<open>hass.config_entries.async_reload(entry.entry_id)\<close>, the log, and how often it has
  awaited \<^verbatim>\<open>client.listen\<close>.
\<close>

record listen_state =
  reload_tasks :: "string list"
  listen_log :: "(log_level \<times> string) list"
  listen_calls :: nat

text \<open>
  \<open>outcome\<close> is how \<^verbatim>\<open>await client.listen(driver_ready)\<close> ends: \<open>None\<close> when it returns
  (the transport closed), \<open>Some err\<close> when it raises \<open>err\<close>.
\<close>

definition client_listen ::
  "config_entry \<Rightarrow> py_error option \<Rightarrow> listen_state \<Rightarrow> (py_error + unit) \<times> listen_state" where
  "client_listen entry outcome h =
     (let h0 = h\<lparr>listen_calls := Suc (listen_calls h)\<rparr>;
          (should_reload, h1) =
            (case outcome of
               None \<Rightarrow> (True, h0)
             | Some err \<Rightarrow>
                 if err = CancelledError then (False, h0)
                 else if is_zwave_js_server_error err
                 then (True, h0\<lparr>listen_log := listen_log h0 @ [(LogError, ''Failed to listen: %s'')]\<rparr>)
                 else (True, h0\<lparr>listen_log := listen_log h0 @ [(LogException, ''Unexpected exception: %s'')]\<rparr>))
      in if should_reload
         then (Inr (),
               h1\<lparr>listen_log := listen_log h1 @
                     [(LogInfo, ''Disconnected from server. Reloading integration'')],
                  reload_tasks := reload_tasks h1 @ [entry_id entry]\<rparr>)
         else (Inr (), h1))"

section \<open>AddonLifecycleGuard\<close>

datatype addon_operation =
    InstallSetupAddon string string bool
  | SetupAddon string string bool

text \<open>
  Modelled from the spec: the add-on manager (\<^verbatim>\<open>addon.py\<close>) is not among the source
  files. \<open>async_is_addon_installed\<close> and \<open>async_is_addon_running\<close> are the results of
  its two queries (an \<open>AddonError\<close> when a query fails), \<open>scheduled\<close> the background
  operations it was asked to schedule; "only one lifecycle operation may be in flight":
  a scheduled operation is in progress until it ends.
\<close>

record addon_manager =
  task_in_progress :: bool
  async_is_addon_installed :: "py_error + bool"
  async_is_addon_running :: "py_error + bool"
  scheduled :: "addon_operation list"

text \<open>
  Modelled from the spec: \<^verbatim>\<open>scheduleInstall(params)\<close> and \<^verbatim>\<open>scheduleStart(params)\<close>,
  which put an operation in flight.
\<close>

definition async_schedule :: "addon_operation \<Rightarrow> addon_manager \<Rightarrow> addon_manager" where
  "async_schedule operation m = m\<lparr>scheduled := scheduled m @ [operation], task_in_progress := True\<rparr>"

definition async_ensure_addon_running ::
  "config_entry \<Rightarrow> addon_manager \<Rightarrow> (py_error + unit) \<times> addon_manager" where
  "async_ensure_addon_running entry m =
     (if task_in_progress m then (Inl ConfigEntryNotReady, m)
      else case async_is_addon_installed m of
        Inl err \<Rightarrow> (if err = AddonError then (Inl ConfigEntryNotReady, m) else (Inl err, m))
      | Inr addon_is_installed \<Rightarrow>
          (case async_is_addon_running m of
             Inl err \<Rightarrow> (if err = AddonError then (Inl ConfigEntryNotReady, m) else (Inl err, m))
           | Inr addon_is_running \<Rightarrow>
               if \<not> addon_is_installed
               then (Inl ConfigEntryNotReady,
                     async_schedule (InstallSetupAddon (usb_path entry) (network_key entry) True) m)
               else if \<not> addon_is_running
               then (Inl ConfigEntryNotReady,
                     async_schedule (SetupAddon (usb_path entry) (network_key entry) True) m)
               else (Inr (), m)))"

text \<open>
  Two sessions agree on the device registry and on the discovered entities: all they may
  differ in is the device signals that were dispatched.
\<close>

definition same_registry_and_entities :: "session \<Rightarrow> session \<Rightarrow> bool" where
  "same_registry_and_entities s t \<longleftrightarrow>
     dev_reg s = dev_reg t \<and> entity_signals (dispatcher s) = entity_signals (dispatcher t)
     \<and> platform_setup_tasks s = platform_setup_tasks t \<and> migrated s = migrated t
     \<and> bus s = bus t \<and> unsubscribe_callbacks s = unsubscribe_callbacks t
     \<and> ready_waiters s = ready_waiters t"

section \<open>Shutdown: tasks, the event loop and \<open>disconnect_client\<close>\<close>

text \<open>
  An asyncio task as \<open>disconnect_client\<close> meets it: still running, or ended by
  returning, by cancellation or by another exception. \<open>on_cancel\<close> says how a running
  task ends once \<open>CancelledError\<close> is thrown into it: \<open>client_listen\<close> catches it and
  returns, \<open>start_platforms\<close> does so while it waits for the driver, and a task that
  does not catch it ends cancelled.
\<close>

datatype task_status = Running | Returned | Cancelled | Raised

datatype cancel_response = CatchesCancel | PropagatesCancel | RaisesOther

record task =
  status :: task_status
  cancel_requested :: bool
  on_cancel :: cancel_response

text \<open>What the function does to the outside, in order.\<close>

datatype effect = TaskCancel nat | TransportDisconnect | Logged log_level string

record event_loop =
  tasks :: "nat \<Rightarrow> task"
  effects :: "effect list"

text \<open>\<^verbatim>\<open>Task.cancel()\<close>: a request, which a task that has ended ignores.\<close>

definition task_cancel :: "nat \<Rightarrow> event_loop \<Rightarrow> event_loop" where
  "task_cancel t l =
     l\<lparr>tasks := (tasks l)
          (t := (if status (tasks l t) = Running
                 then (tasks l t)\<lparr>cancel_requested := True\<rparr> else tasks l t)),
       effects := effects l @ [TaskCancel t]\<rparr>"

text \<open>The event loop gives a task its turn: a cancelled running task ends.\<close>

definition run_task :: "nat \<Rightarrow> event_loop \<Rightarrow> event_loop" where
  "run_task t l =
     (if status (tasks l t) = Running \<and> cancel_requested (tasks l t)
      then l\<lparr>tasks := (tasks l)
             (t := (tasks l t)
                \<lparr>status := (case on_cancel (tasks l t) of
                               CatchesCancel \<Rightarrow> Returned
                             | PropagatesCancel \<Rightarrow> Cancelled
                             | RaisesOther \<Rightarrow> Raised)\<rparr>)\<rparr>
      else l)"

text \<open>
  \<^verbatim>\<open>await asyncio.gather(*children)\<close> without \<^verbatim>\<open>return_exceptions\<close>: the first
  exception of a child is raised at once, a cancelled child counting as
  \<open>CancelledError\<close>; the call returns when every child has returned. \<open>sched\<close> is the
  order in which the event loop runs tasks while the caller waits; when it is used up
  and a child still runs, the call has not returned (\<open>None\<close>).
\<close>

fun first_exception :: "nat list \<Rightarrow> (nat \<Rightarrow> task) \<Rightarrow> py_error option" where
  "first_exception [] ts = None"
| "first_exception (c # cs) ts =
     (case status (ts c) of
        Cancelled \<Rightarrow> Some CancelledError
      | Raised \<Rightarrow> Some (OtherException ''task'')
      | _ \<Rightarrow> first_exception cs ts)"

fun gather :: "nat list \<Rightarrow> nat list \<Rightarrow> event_loop \<Rightarrow> (py_error + unit) option \<times> event_loop" where
  "gather children [] l =
     (case first_exception children (tasks l) of
        Some err \<Rightarrow> (Some (Inl err), l)
      | None \<Rightarrow>
          if list_all (\<lambda>c. status (tasks l c) = Returned) children
          then (Some (Inr ()), l) else (None, l))"
| "gather children (t # sched) l =
     (case first_exception children (tasks l) of
        Some err \<Rightarrow> (Some (Inl err), l)
      | None \<Rightarrow>
          if list_all (\<lambda>c. status (tasks l c) = Returned) children
          then (Some (Inr ()), l) else gather children sched (run_task t l))"

text \<open>
  \<open>hass_data\<close> is \<^verbatim>\<open>hass.data[DOMAIN]\<close> as the function reads it: for an entry id, the
  dict \<^verbatim>\<open>DATA_PLATFORM_SETUP\<close> from platforms to tasks; an entry that is missing gives
  no task.
\<close>

definition disconnect_client ::
  "(string \<rightharpoonup> (string \<times> nat) list) \<Rightarrow> config_entry \<Rightarrow> zwave_client \<Rightarrow> nat \<Rightarrow> nat \<Rightarrow>
   nat list \<Rightarrow> event_loop \<Rightarrow> (py_error + unit) option \<times> event_loop" where
  "disconnect_client hass_data entry client listen_task platform_task sched l =
     (let l1 = task_cancel listen_task l;
          l2 = task_cancel platform_task l1;
          platform_setup_tasks =
            map snd (case hass_data (entry_id entry) of None \<Rightarrow> [] | Some d \<Rightarrow> d);
          l3 = fold task_cancel platform_setup_tasks l2;
          (r, l4) = gather (listen_task # platform_task # platform_setup_tasks) sched l3
      in case r of
           None \<Rightarrow> (None, l4)
         | Some (Inl err) \<Rightarrow> (Some (Inl err), l4)
         | Some (Inr _) \<Rightarrow>
             if connected client
             then (Some (Inr ()),
                   l4\<lparr>effects := effects l4 @
                        [TransportDisconnect,
                         Logged LogInfo ''Disconnected from Zwave JS Server'']\<rparr>)
             else (Some (Inr ()), l4))"

text \<open>The tasks the function cancels and gathers.\<close>

definition dependent_tasks ::
  "(string \<rightharpoonup> (string \<times> nat) list) \<Rightarrow> config_entry \<Rightarrow> nat \<Rightarrow> nat \<Rightarrow> nat list" where
  "dependent_tasks hass_data entry listen_task platform_task =
     listen_task # platform_task #
       map snd (case hass_data (entry_id entry) of None \<Rightarrow> [] | Some d \<Rightarrow> d)"

section \<open>DiscoveryReconciler: discovery passes that interleave\<close>

text \<open>
  Several invocations of \<open>async_on_node_ready\<close> run on one event loop and share
  \<^verbatim>\<open>entry_hass_data[DATA_PLATFORM_SETUP]\<close>. A pass gives way to the others only at
  \<^verbatim>\<open>await platform_setup_tasks[disc_info.platform]\<close>; what it does from one await to the
  next is one step. A pass is at the head of its loop with the descriptors it still has
  to handle, or it waits for a task with the descriptor in hand, or it has ended.
\<close>

datatype pass =
    Looping "disc_info list"
  | Awaiting nat disc_info "disc_info list"
  | PassDone
  | PassRaised py_error

text \<open>What has happened so far, in order; passes and tasks are named by their indices.\<close>

datatype history_event =
    Migrated nat disc_info
  | SetupTaskCreated nat string
  | SetupTaskEnded nat string "py_error + bool"
  | Published nat disc_info

text \<open>
  \<open>d_tasks\<close> holds every task made by
  \<^verbatim>\<open>hass.async_create_task(hass.config_entries.async_forward_entry_setup(...))\<close>, with
  its platform; \<open>d_platform_setup_tasks\<close> is the dict from platforms to tasks.
\<close>

record discovery_state =
  d_tasks :: "(string \<times> setup_task) list"
  d_platform_setup_tasks :: "(string \<times> nat) list"
  d_passes :: "pass list"
  d_history :: "history_event list"

definition init_discovery :: discovery_state where
  "init_discovery = \<lparr>d_tasks = [], d_platform_setup_tasks = [], d_passes = [], d_history = []\<rparr>"

text \<open>
  The steps the event loop can take: a new pass starts with the descriptors of its node;
  a pass runs to its next await or to its end; a pending setup task ends, with a result
  or an exception.
\<close>

datatype action = StartPass "disc_info list" | Advance nat | SetupEnds nat "py_error + bool"

text \<open>
  One step of pass \<open>i\<close>. At the head of the loop with a descriptor: the migration, then
  the test \<^verbatim>\<open>if disc_info.platform not in platform_setup_tasks\<close> and the creation of
  the task, then the await, all without giving way. At the await: the pass goes on only
  when the task has ended; it publishes the descriptor when the task returned, and
  ends with the exception of the task otherwise. (A pass whose task has already ended
  does not give way at the await; taking the publication as a step of its own allows
  more interleavings, not fewer.)
\<close>

definition advance :: "nat \<Rightarrow> discovery_state \<Rightarrow> discovery_state option" where
  "advance i s =
     (if length (d_passes s) \<le> i then None
      else case d_passes s ! i of
        Looping [] \<Rightarrow> Some (s\<lparr>d_passes := (d_passes s)[i := PassDone]\<rparr>)
      | Looping (d # ds) \<Rightarrow>
          (case map_of (d_platform_setup_tasks s) (platform d) of
             None \<Rightarrow>
               Some (s\<lparr>d_tasks := d_tasks s @ [(platform d, TaskPending)],
                       d_platform_setup_tasks :=
                         d_platform_setup_tasks s @ [(platform d, length (d_tasks s))],
                       d_passes := (d_passes s)[i := Awaiting (length (d_tasks s)) d ds],
                       d_history := d_history s @
                         [Migrated i d, SetupTaskCreated (length (d_tasks s)) (platform d)]\<rparr>)
           | Some tid \<Rightarrow>
               Some (s\<lparr>d_passes := (d_passes s)[i := Awaiting tid d ds],
                       d_history := d_history s @ [Migrated i d]\<rparr>))
      | Awaiting tid d ds \<Rightarrow>
          (if length (d_tasks s) \<le> tid then None
           else case snd (d_tasks s ! tid) of
             TaskPending \<Rightarrow> None
           | TaskDone (Inl err) \<Rightarrow> Some (s\<lparr>d_passes := (d_passes s)[i := PassRaised err]\<rparr>)
           | TaskDone (Inr _) \<Rightarrow>
               Some (s\<lparr>d_passes := (d_passes s)[i := Looping ds],
                       d_history := d_history s @ [Published i d]\<rparr>))
      | PassDone \<Rightarrow> None
      | PassRaised _ \<Rightarrow> None)"

definition setup_ends :: "nat \<Rightarrow> py_error + bool \<Rightarrow> discovery_state \<Rightarrow> discovery_state option" where
  "setup_ends tid r s =
     (if tid < length (d_tasks s) \<and> snd (d_tasks s ! tid) = TaskPending
      then Some (s\<lparr>d_tasks := (d_tasks s)[tid := (fst (d_tasks s ! tid), TaskDone r)],
                   d_history := d_history s @ [SetupTaskEnded tid (fst (d_tasks s ! tid)) r]\<rparr>)
      else None)"

fun step :: "action \<Rightarrow> discovery_state \<Rightarrow> discovery_state option" where
  "step (StartPass ds) s = Some (s\<lparr>d_passes := d_passes s @ [Looping ds]\<rparr>)"
| "step (Advance i) s = advance i s"
| "step (SetupEnds tid r) s = setup_ends tid r s"

fun run :: "action list \<Rightarrow> discovery_state \<Rightarrow> discovery_state option" where
  "run [] s = Some s"
| "run (a # as) s = (case step a s of None \<Rightarrow> None | Some t \<Rightarrow> run as t)"

text \<open>The platforms for which a setup task was created, in the order of creation.\<close>

fun created_platforms :: "history_event list \<Rightarrow> string list" where
  "created_platforms [] = []"
| "created_platforms (SetupTaskCreated tid p # h) = p # created_platforms h"
| "created_platforms (_ # h) = created_platforms h"

text \<open>
  What every step keeps true: the dict and the list of tasks agree and no platform has
  two tasks; a waiting pass waits for the task of its platform; a task that has ended
  is in the history with its result; and a published descriptor comes after the
  successful end of the setup of its platform.
\<close>

definition tasks_inv :: "discovery_state \<Rightarrow> bool" where
  "tasks_inv s \<longleftrightarrow>
     map fst (d_platform_setup_tasks s) = map fst (d_tasks s)
     \<and> map snd (d_platform_setup_tasks s) = [0..<length (d_tasks s)]
     \<and> distinct (map fst (d_tasks s))
     \<and> created_platforms (d_history s) = map fst (d_tasks s)"

definition awaiting_inv :: "discovery_state \<Rightarrow> bool" where
  "awaiting_inv s \<longleftrightarrow>
     (\<forall>i < length (d_passes s). \<forall>tid d ds. d_passes s ! i = Awaiting tid d ds \<longrightarrow>
        map_of (d_platform_setup_tasks s) (platform d) = Some tid)"

definition ended_inv :: "discovery_state \<Rightarrow> bool" where
  "ended_inv s \<longleftrightarrow>
     (\<forall>tid < length (d_tasks s). \<forall>r. snd (d_tasks s ! tid) = TaskDone r \<longrightarrow>
        SetupTaskEnded tid (fst (d_tasks s ! tid)) r \<in> set (d_history s))"

definition published_inv :: "discovery_state \<Rightarrow> bool" where
  "published_inv s \<longleftrightarrow>
     (\<forall>h1 i d h2. d_history s = h1 @ Published i d # h2 \<longrightarrow>
        (\<exists>tid b. SetupTaskEnded tid (platform d) (Inr b) \<in> set h1))"

definition discovery_inv :: "discovery_state \<Rightarrow> bool" where
  "discovery_inv s \<longleftrightarrow> tasks_inv s \<and> awaiting_inv s \<and> ended_inv s \<and> published_inv s"

section \<open>Example inputs\<close>

definition ex_entry :: config_entry where
  "ex_entry = \<lparr>entry_id = ''entry1'', usb_path = ''/dev/ttyUSB0'', network_key = ''key''\<rparr>"

definition ex_node :: "nat \<Rightarrow> bool \<Rightarrow> zwave_node" where
  "ex_node i r =
     \<lparr>node_id = i, ready = r, firmware_version = Some ''1.0'', node_name = None,
      node_device_config = \<lparr>description = Some ''Dimmer'', dc_label = Some ''ZW100'', manufacturer = Some ''ACME''\<rparr>,
      location = None, node_values = [''level'']\<rparr>"

definition ex_client :: zwave_client where
  "ex_client = \<lparr>home_id = 1, nodes = [ex_node 2 True, ex_node 4 True], connected = True\<rparr>"

definition ex_device :: "nat \<Rightarrow> nat \<Rightarrow> device_entry" where
  "ex_device i n =
     \<lparr>dev_id = i, config_entries = {''entry1''}, identifiers = {(1, n)}, sw_version = Some ''1.0'',
      dev_name = ''Dimmer'', model = Some ''ZW100'', dev_manufacturer = Some ''ACME'',
      suggested_area = None\<rparr>"

definition ex_session :: session where
  "ex_session =
     \<lparr>dev_reg = \<lparr>devices = [ex_device 10 2, ex_device 11 3, ex_device 12 4]\<rparr>,
      bus = [], dispatcher = [], migrated = [], platform_setup_tasks = [],
      unsubscribe_callbacks = [], ready_waiters = []\<rparr>"

definition ex_value_notification :: "nat \<Rightarrow> value_notification" where
  "ex_value_notification n =
     \<lparr>vn_node = ex_node n True, vn_endpoint = Some 0, vn_command_class = 91,
      vn_command_class_name = ''Central Scene'',
      vn_metadata = \<lparr>vm_label = Some ''Scene 001'', states = [(''0'', ''KeyPressed'')]\<rparr>,
      vn_property = PyStr ''scene'', vn_property_name = Some ''scene'',
      vn_property_key = PyStr ''001'', vn_property_key_name = Some ''001'',
      vn_value = PyInt 5\<rparr>"

definition ex_disc_info :: disc_info where
  "ex_disc_info = \<lparr>platform = ''light'', primary_value = ''level''\<rparr>"

definition ex_env :: env where
  "ex_env = \<lparr>async_discover_values = (\<lambda>node. map (\<lambda>v. \<lparr>platform = ''light'', primary_value = v\<rparr>) (node_values node)),
             async_forward_entry_setup = (\<lambda>p. Inr True)\<rparr>"

definition ex_entry_control :: "nat \<Rightarrow> notification" where
  "ex_entry_control n =
     EntryControlNotification
       \<lparr>ec_node = ex_node n True, ec_command_class = 111, ec_event_type = 2,
        ec_data_type = 2, ec_event_data = PyStr ''1234''\<rparr>"

definition ex_addon :: "bool \<Rightarrow> bool \<Rightarrow> bool \<Rightarrow> addon_manager" where
  "ex_addon busy installed running =
     \<lparr>task_in_progress = busy, async_is_addon_installed = Inr installed,
      async_is_addon_running = Inr running, scheduled = []\<rparr>"

definition ex_unready_node :: "nat \<Rightarrow> zwave_node" where
  "ex_unready_node i =
     \<lparr>node_id = i, ready = False, firmware_version = None, node_name = None,
      node_device_config = \<lparr>description = None, dc_label = None, manufacturer = None\<rparr>,
      location = None, node_values = []\<rparr>"

text \<open>The example session after node 3 was handled as ready once.\<close>

definition ex_session_ready :: session where
  "ex_session_ready =
     ex_session
        \<lparr>dispatcher := [EVENT_DEVICE_ADDED_TO_REGISTRY (ex_device 11 3),
                        entity_discovered ex_entry ex_disc_info],
         migrated := [ex_disc_info],
         platform_setup_tasks := [(''light'', TaskDone (Inr True))],
         unsubscribe_callbacks := [ValueNotificationListener 3, NotificationListener 3]\<rparr>"

definition ex_loop :: event_loop where
  "ex_loop =
     \<lparr>tasks = (\<lambda>t. \<lparr>status = Running, cancel_requested = False, on_cancel = CatchesCancel\<rparr>)
                (2 := \<lparr>status = Returned, cancel_requested = False, on_cancel = PropagatesCancel\<rparr>),
      effects = []\<rparr>"

definition ex_hass_data :: "string \<rightharpoonup> (string \<times> nat) list" where
  "ex_hass_data = [''entry1'' \<mapsto> [(''light'', 2)]]"

text \<open>
  Two nodes with one light each: both passes start, the first creates the setup task,
  the second waits for the same task, the task ends, and both publish.
\<close>

definition ex_actions :: "action list" where
  "ex_actions =
     [StartPass [\<lparr>platform = ''light'', primary_value = ''2-level''\<rparr>],
      StartPass [\<lparr>platform = ''light'', primary_value = ''4-level''\<rparr>],
      Advance 0, Advance 1, SetupEnds 0 (Inr True), Advance 0, Advance 1]"

definition ex_discovered :: discovery_state where
  "ex_discovered =
     \<lparr>d_tasks = [(''light'', TaskDone (Inr True))],
      d_platform_setup_tasks = [(''light'', 0)],
      d_passes = [Looping [], Looping []],
      d_history =
        [Migrated 0 \<lparr>platform = ''light'', primary_value = ''2-level''\<rparr>,
         SetupTaskCreated 0 ''light'',
         Migrated 1 \<lparr>platform = ''light'', primary_value = ''4-level''\<rparr>,
         SetupTaskEnded 0 ''light'' (Inr True),
         Published 0 \<lparr>platform = ''light'', primary_value = ''2-level''\<rparr>,
         Published 1 \<lparr>platform = ''light'', primary_value = ''4-level''\<rparr>]\<rparr>"

text \<open>
  Node 5 with a location: as it is added, not ready and with no other data yet, and as
  it is when ready.
\<close>

definition ex_located_unready_node :: "string \<Rightarrow> zwave_node" where
  "ex_located_unready_node l = (ex_unready_node 5)\<lparr>location := Some l\<rparr>"

definition ex_located_node :: "string \<Rightarrow> zwave_node" where
  "ex_located_node l = (ex_node 5 True)\<lparr>location := Some l\<rparr>"

section \<open>NotificationRelay: the published value\<close>

text \<open>
  C10. In every value-notification event that \<open>async_on_value_notification\<close> publishes,
  the raw-value field is the notification's original value, and the value field is
  that same raw value whenever the states table of the metadata has no entry under
  \<^verbatim>\<open>str(value)\<close>: decoding falls back to the raw value.
\<close>

theorem value_notification_raw_and_fallback:
  assumes "async_on_value_notification client n s = (Inr (), s')"
  shows "\<exists>ev. bus s' = bus s @ [ZWAVE_JS_VALUE_NOTIFICATION_EVENT ev]
           \<and> ATTR_VALUE_RAW ev = vn_value n
           \<and> (map_of (states (vn_metadata n)) (py_str (vn_value n)) = None
                \<longrightarrow> ATTR_VALUE ev = vn_value n)"
  using assms
  by (auto simp: async_on_value_notification_def Let_def split: option.splits)

theorem value_notification_raw_and_fallback_witness:
  "\<exists>ev. bus (snd (async_on_value_notification ex_client (ex_value_notification 3) ex_session))
            = bus ex_session @ [ZWAVE_JS_VALUE_NOTIFICATION_EVENT ev]
         \<and> ATTR_VALUE_RAW ev = PyInt 5 \<and> ATTR_VALUE ev = PyInt 5"
proof -
  have "fst (async_on_value_notification ex_client (ex_value_notification 3) ex_session) = Inr ()"
    by (simp add: async_on_value_notification_def async_get_device_def get_device_id_def Let_def
        ex_client_def ex_value_notification_def ex_session_def ex_device_def ex_node_def)
  then have run: "async_on_value_notification ex_client (ex_value_notification 3) ex_session
        = (Inr (), snd (async_on_value_notification ex_client (ex_value_notification 3) ex_session))"
    by (simp add: prod_eq_iff)
  have absent: "map_of (states (vn_metadata (ex_value_notification 3)))
                  (py_str (vn_value (ex_value_notification 3))) = None"
    by (simp add: ex_value_notification_def str_int_def str_nat.simps)
  from value_notification_raw_and_fallback [OF run] absent
  show ?thesis by (simp add: ex_value_notification_def)
qed

section \<open>ConnectionSession: reload after the listen task ends\<close>

text \<open>
  C6. \<open>client_listen\<close> awaits \<^verbatim>\<open>client.listen\<close> once and never again (the session is
  not resumed in place), returns without raising, and creates the reload task of the
  entry exactly once when \<^verbatim>\<open>client.listen\<close> returns or raises anything but
  \<open>CancelledError\<close>, and not at all when it is cancelled. The outcomes are those of
  \<open>py_error\<close>: cancellation and the subclasses of \<open>Exception\<close>.
\<close>

theorem client_listen_reload_once:
  "fst (client_listen entry outcome h) = Inr ()
   \<and> listen_calls (snd (client_listen entry outcome h)) = Suc (listen_calls h)
   \<and> reload_tasks (snd (client_listen entry outcome h)) =
       (if outcome = Some CancelledError then reload_tasks h
        else reload_tasks h @ [entry_id entry])"
  by (cases outcome) (simp_all add: client_listen_def Let_def)

section \<open>AddonLifecycleGuard: ensuring the add-on runs\<close>

text \<open>
  C9. While an add-on operation is in progress \<open>async_ensure_addon_running\<close> fails at
  once, asking and scheduling nothing; the exception it raises is
  \<open>ConfigEntryNotReady\<close>, which is what the source has for the spec's
  \<^verbatim>\<open>OperationInProgress\<close>. Otherwise it returns when the add-on is installed and
  running, schedules the installation when the add-on is not installed, schedules the
  start when it is installed and not running, and in both cases raises
  \<open>ConfigEntryNotReady\<close>; a second request made while the scheduled operation is in
  progress fails at once and schedules nothing more.
\<close>

theorem ensure_addon_running_cases:
  "(task_in_progress m \<longrightarrow>
      async_ensure_addon_running entry m = (Inl ConfigEntryNotReady, m))
   \<and> (\<not> task_in_progress m \<and> async_is_addon_installed m = Inr True
        \<and> async_is_addon_running m = Inr True \<longrightarrow>
      async_ensure_addon_running entry m = (Inr (), m))
   \<and> (\<not> task_in_progress m \<and> async_is_addon_installed m = Inr False
        \<and> async_is_addon_running m = Inr r \<longrightarrow>
      async_ensure_addon_running entry m =
        (Inl ConfigEntryNotReady,
         m\<lparr>scheduled := scheduled m @ [InstallSetupAddon (usb_path entry) (network_key entry) True],
           task_in_progress := True\<rparr>))
   \<and> (\<not> task_in_progress m \<and> async_is_addon_installed m = Inr True
        \<and> async_is_addon_running m = Inr False \<longrightarrow>
      async_ensure_addon_running entry m =
        (Inl ConfigEntryNotReady,
         m\<lparr>scheduled := scheduled m @ [SetupAddon (usb_path entry) (network_key entry) True],
           task_in_progress := True\<rparr>))
   \<and> (scheduled (snd (async_ensure_addon_running entry m)) \<noteq> scheduled m \<longrightarrow>
      async_ensure_addon_running entry (snd (async_ensure_addon_running entry m)) =
        (Inl ConfigEntryNotReady, snd (async_ensure_addon_running entry m)))"
  by (auto simp: async_ensure_addon_running_def async_schedule_def split: sum.splits)

theorem ensure_addon_running_cases_witness:
  "async_ensure_addon_running ex_entry (ex_addon True True True)
     = (Inl ConfigEntryNotReady, ex_addon True True True)
   \<and> async_ensure_addon_running ex_entry (ex_addon False True True)
     = (Inr (), ex_addon False True True)
   \<and> async_ensure_addon_running ex_entry (ex_addon False False False)
     = (Inl ConfigEntryNotReady,
        (ex_addon True False False)
          \<lparr>scheduled := [InstallSetupAddon ''/dev/ttyUSB0'' ''key'' True]\<rparr>)
   \<and> async_ensure_addon_running ex_entry (ex_addon False True False)
     = (Inl ConfigEntryNotReady,
        (ex_addon True True False)\<lparr>scheduled := [SetupAddon ''/dev/ttyUSB0'' ''key'' True]\<rparr>)
   \<and> async_ensure_addon_running ex_entry
        (snd (async_ensure_addon_running ex_entry (ex_addon False True False)))
     = (Inl ConfigEntryNotReady,
        (ex_addon True True False)\<lparr>scheduled := [SetupAddon ''/dev/ttyUSB0'' ''key'' True]\<rparr>)"
proof -
  note c = ensure_addon_running_cases
  have 1: "async_ensure_addon_running ex_entry (ex_addon True True True)
     = (Inl ConfigEntryNotReady, ex_addon True True True)"
    using c [of "ex_addon True True True" ex_entry] by (simp add: ex_addon_def)
  have 2: "async_ensure_addon_running ex_entry (ex_addon False True True)
     = (Inr (), ex_addon False True True)"
    using c [of "ex_addon False True True" ex_entry] by (simp add: ex_addon_def)
  have 3: "async_ensure_addon_running ex_entry (ex_addon False False False)
     = (Inl ConfigEntryNotReady,
        (ex_addon True False False)
          \<lparr>scheduled := [InstallSetupAddon ''/dev/ttyUSB0'' ''key'' True]\<rparr>)"
    using c [of "ex_addon False False False" ex_entry False]
    by (simp add: ex_addon_def ex_entry_def)
  have 4: "async_ensure_addon_running ex_entry (ex_addon False True False)
     = (Inl ConfigEntryNotReady,
        (ex_addon True True False)\<lparr>scheduled := [SetupAddon ''/dev/ttyUSB0'' ''key'' True]\<rparr>)"
    using c [of "ex_addon False True False" ex_entry]
    by (simp add: ex_addon_def ex_entry_def)
  have 5: "async_ensure_addon_running ex_entry
        (snd (async_ensure_addon_running ex_entry (ex_addon False True False)))
     = (Inl ConfigEntryNotReady,
        (ex_addon True True False)\<lparr>scheduled := [SetupAddon ''/dev/ttyUSB0'' ''key'' True]\<rparr>)"
    using c [of "(ex_addon True True False)\<lparr>scheduled := [SetupAddon ''/dev/ttyUSB0'' ''key'' True]\<rparr>" ex_entry] 4
    by (simp add: ex_addon_def)
  from 1 2 3 4 5 show ?thesis by simp
qed

section \<open>NotificationRelay: a node without a device\<close>

text \<open>
  C5, as amended. When the registry has a device for the node of a value notification
  or of a notification, the handler publishes one event that carries the id of that
  device, and returns. When the registry has none, the handler raises
  \<open>AttributeError\<close> (it reads \<^verbatim>\<open>device.id\<close> of \<open>None\<close>) and publishes nothing: the
  exception is neither caught nor logged.
\<close>

theorem notification_relay_device_resolution:
  "(async_get_device (dev_reg s) {get_device_id client (vn_node vn)} = None \<longrightarrow>
      async_on_value_notification client vn s = (Inl AttributeError, s))
   \<and> (async_get_device (dev_reg s) {get_device_id client (notification_node n)} = None \<longrightarrow>
      async_on_notification client n s = (Inl AttributeError, s))
   \<and> (async_get_device (dev_reg s) {get_device_id client (vn_node vn)} = Some d \<longrightarrow>
      fst (async_on_value_notification client vn s) = Inr ()
      \<and> (\<exists>ev. snd (async_on_value_notification client vn s) =
             s\<lparr>bus := bus s @ [ZWAVE_JS_VALUE_NOTIFICATION_EVENT ev]\<rparr>
           \<and> ATTR_DEVICE_ID ev = dev_id d))
   \<and> (async_get_device (dev_reg s) {get_device_id client (notification_node n)} = Some d \<longrightarrow>
      fst (async_on_notification client n s) = Inr ()
      \<and> (\<exists>ev. snd (async_on_notification client n s) =
             s\<lparr>bus := bus s @ [ZWAVE_JS_NOTIFICATION_EVENT ev]\<rparr>
           \<and> NE_DEVICE_ID ev = dev_id d))"
  by (auto simp: async_on_value_notification_def async_on_notification_def Let_def)

theorem notification_relay_device_resolution_witness:
  "async_on_value_notification ex_client (ex_value_notification 7) ex_session
     = (Inl AttributeError, ex_session)
   \<and> async_on_notification ex_client (ex_entry_control 7) ex_session
     = (Inl AttributeError, ex_session)
   \<and> fst (async_on_value_notification ex_client (ex_value_notification 3) ex_session) = Inr ()
   \<and> fst (async_on_notification ex_client (ex_entry_control 3) ex_session) = Inr ()"
proof -
  have none: "async_get_device (dev_reg ex_session) {get_device_id ex_client (ex_node 7 True)} = None"
    by (simp add: async_get_device_def get_device_id_def ex_client_def ex_session_def
        ex_device_def ex_node_def)
  have some: "async_get_device (dev_reg ex_session) {get_device_id ex_client (ex_node 3 True)}
        = Some (ex_device 11 3)"
    by (simp add: async_get_device_def get_device_id_def ex_client_def ex_session_def
        ex_device_def ex_node_def)
  from none
    notification_relay_device_resolution
      [of ex_session ex_client "ex_value_notification 7" "ex_entry_control 7"]
  have a: "async_on_value_notification ex_client (ex_value_notification 7) ex_session
       = (Inl AttributeError, ex_session)
     \<and> async_on_notification ex_client (ex_entry_control 7) ex_session
       = (Inl AttributeError, ex_session)"
    by (simp add: ex_value_notification_def ex_entry_control_def)
  from some
    notification_relay_device_resolution
      [of ex_session ex_client "ex_value_notification 3" "ex_entry_control 3" "ex_device 11 3"]
  have b: "fst (async_on_value_notification ex_client (ex_value_notification 3) ex_session) = Inr ()
     \<and> fst (async_on_notification ex_client (ex_entry_control 3) ex_session) = Inr ()"
    by (simp add: ex_value_notification_def ex_entry_control_def)
  from a b show ?thesis by simp
qed

text \<open>
  The claim as stated fails: a value notification and an entry-control notification
  for node 7, which has no device, both raise.
\<close>

theorem notification_unregistered_counterexample:
  "async_on_value_notification ex_client (ex_value_notification 7) ex_session
     = (Inl AttributeError, ex_session)
   \<and> async_on_notification ex_client (ex_entry_control 7) ex_session
     = (Inl AttributeError, ex_session)"
  by (simp add: async_on_value_notification_def async_on_notification_def async_get_device_def
      get_device_id_def ex_client_def ex_session_def ex_device_def ex_node_def
      ex_value_notification_def ex_entry_control_def)

section \<open>DeviceRegistrySync: removal of a node\<close>

lemma get_device_after_remove:
  assumes "\<forall>d' \<in> set (devices reg). i \<in> identifiers d' \<longrightarrow> dev_id d' = k"
  shows "async_get_device (async_remove_device reg k) {i} = None"
  using assms
  by (auto simp: async_get_device_def async_remove_device_def find_None_iff)

text \<open>
  C1, as amended. When the registry has a device for the removed node,
  \<open>async_on_node_removed\<close> removes it and returns. When it has none, the handler raises
  \<open>AttributeError\<close> and leaves the session as it was; so the second of two removals of
  the same node raises, its device being the only one with the node's identifier.
\<close>

theorem node_removed_device_resolution:
  "(async_get_device (dev_reg s) {get_device_id client node} = None \<longrightarrow>
      async_on_node_removed client node s = (Inl AttributeError, s))
   \<and> (async_get_device (dev_reg s) {get_device_id client node} = Some d \<longrightarrow>
      async_on_node_removed client node s =
        (Inr (), s\<lparr>dev_reg := async_remove_device (dev_reg s) (dev_id d)\<rparr>)
      \<and> d \<notin> set (devices (dev_reg (snd (async_on_node_removed client node s)))))
   \<and> (async_get_device (dev_reg s) {get_device_id client node} = Some d
        \<and> (\<forall>d' \<in> set (devices (dev_reg s)).
              get_device_id client node \<in> identifiers d' \<longrightarrow> dev_id d' = dev_id d) \<longrightarrow>
      fst (async_on_node_removed client node (snd (async_on_node_removed client node s)))
        = Inl AttributeError)"
proof -
  let ?i = "get_device_id client node"
  have absent: "async_get_device (dev_reg s) {?i} = None \<Longrightarrow>
      async_on_node_removed client node s = (Inl AttributeError, s)"
    by (simp add: async_on_node_removed_def)
  have present: "async_get_device (dev_reg s) {?i} = Some d \<Longrightarrow>
      async_on_node_removed client node s =
        (Inr (), s\<lparr>dev_reg := async_remove_device (dev_reg s) (dev_id d)\<rparr>)"
    by (simp add: async_on_node_removed_def)
  have gone: "d \<notin> set (devices (async_remove_device (dev_reg s) (dev_id d)))"
    by (simp add: async_remove_device_def)
  have again: "fst (async_on_node_removed client node
                 (s\<lparr>dev_reg := async_remove_device (dev_reg s) (dev_id d)\<rparr>)) = Inl AttributeError"
    if "\<forall>d' \<in> set (devices (dev_reg s)). ?i \<in> identifiers d' \<longrightarrow> dev_id d' = dev_id d"
  proof -
    from that have "async_get_device (async_remove_device (dev_reg s) (dev_id d)) {?i} = None"
      by (rule get_device_after_remove)
    then show ?thesis by (simp add: async_on_node_removed_def)
  qed
  show ?thesis
    using absent present gone again by simp
qed

theorem node_removed_device_resolution_witness:
  "async_on_node_removed ex_client (ex_node 7 True) ex_session = (Inl AttributeError, ex_session)
   \<and> async_on_node_removed ex_client (ex_node 3 True) ex_session
       = (Inr (), ex_session\<lparr>dev_reg := \<lparr>devices = [ex_device 10 2, ex_device 12 4]\<rparr>\<rparr>)
   \<and> fst (async_on_node_removed ex_client (ex_node 3 True)
           (snd (async_on_node_removed ex_client (ex_node 3 True) ex_session)))
       = Inl AttributeError"
proof -
  have none: "async_get_device (dev_reg ex_session) {get_device_id ex_client (ex_node 7 True)} = None"
    by (simp add: async_get_device_def get_device_id_def ex_client_def ex_session_def
        ex_device_def ex_node_def)
  have some: "async_get_device (dev_reg ex_session) {get_device_id ex_client (ex_node 3 True)}
        = Some (ex_device 11 3)"
    by (simp add: async_get_device_def get_device_id_def ex_client_def ex_session_def
        ex_device_def ex_node_def)
  have only: "\<forall>d' \<in> set (devices (dev_reg ex_session)).
      get_device_id ex_client (ex_node 3 True) \<in> identifiers d' \<longrightarrow> dev_id d' = dev_id (ex_device 11 3)"
    by (simp add: get_device_id_def ex_client_def ex_session_def ex_device_def ex_node_def)
  have rem: "async_remove_device (dev_reg ex_session) (dev_id (ex_device 11 3))
      = \<lparr>devices = [ex_device 10 2, ex_device 12 4]\<rparr>"
    by (simp add: async_remove_device_def ex_session_def ex_device_def)
  from none node_removed_device_resolution [of ex_session ex_client "ex_node 7 True"]
  have a: "async_on_node_removed ex_client (ex_node 7 True) ex_session = (Inl AttributeError, ex_session)"
    by simp
  note t = node_removed_device_resolution [of ex_session ex_client "ex_node 3 True" "ex_device 11 3"]
  from t some rem
  have b: "async_on_node_removed ex_client (ex_node 3 True) ex_session
       = (Inr (), ex_session\<lparr>dev_reg := \<lparr>devices = [ex_device 10 2, ex_device 12 4]\<rparr>\<rparr>)"
    by simp
  from t some only
  have c: "fst (async_on_node_removed ex_client (ex_node 3 True)
           (snd (async_on_node_removed ex_client (ex_node 3 True) ex_session)))
       = Inl AttributeError"
    by blast
  from a b c show ?thesis by simp
qed

text \<open>
  The claim as stated fails: removing node 3 succeeds, removing it again raises.
\<close>

theorem node_removed_twice_counterexample:
  "fst (async_on_node_removed ex_client (ex_node 3 True) ex_session) = Inr ()
   \<and> fst (async_on_node_removed ex_client (ex_node 3 True)
           (snd (async_on_node_removed ex_client (ex_node 3 True) ex_session)))
       = Inl AttributeError"
  by (simp add: async_on_node_removed_def async_get_device_def async_remove_device_def
      get_device_id_def ex_client_def ex_session_def ex_device_def ex_node_def)

section \<open>DeviceRegistrySync: stale devices\<close>

text \<open>The removal loop removes the devices whose id is the id of a stale stored device.\<close>

lemma fold_remove_devices:
  "devices (fold (\<lambda>device reg. if P device then async_remove_device reg (dev_id device) else reg) xs reg)
     = filter (\<lambda>x. dev_id x \<notin> dev_id ` {d \<in> set xs. P d}) (devices reg)"
proof (induction xs arbitrary: reg)
  case Nil
  then show ?case by simp
next
  case (Cons a xs)
  show ?case
  proof (cases "P a")
    case True
    have "devices (fold (\<lambda>device reg. if P device then async_remove_device reg (dev_id device) else reg) (a # xs) reg)
        = filter (\<lambda>x. dev_id x \<notin> dev_id ` {d \<in> set xs. P d})
            (filter (\<lambda>d. dev_id d \<noteq> dev_id a) (devices reg))"
      using True by (simp add: Cons.IH async_remove_device_def)
    also have "\<dots> = filter (\<lambda>x. dev_id x \<notin> dev_id ` {d \<in> set (a # xs). P d}) (devices reg)"
      using True by (auto intro: filter_cong)
    finally show ?thesis .
  next
    case False
    have "{d \<in> set (a # xs). P d} = {d \<in> set xs. P d}"
      using False by auto
    with False show ?thesis by (simp add: Cons.IH)
  qed
qed

text \<open>
  In a registry where an identifier belongs to one device, looking an identifier up
  gives a device exactly when that device carries it.
\<close>

lemma get_device_unique:
  assumes ok: "registry_ok reg" and d: "d \<in> set (devices reg)"
  shows "async_get_device reg {i} = Some d \<longleftrightarrow> i \<in> identifiers d"
proof
  assume "async_get_device reg {i} = Some d"
  then show "i \<in> identifiers d"
    by (auto simp: async_get_device_def find_Some_iff)
next
  assume i: "i \<in> identifiers d"
  with d have "async_get_device reg {i} \<noteq> None"
    by (auto simp: async_get_device_def find_None_iff)
  then obtain d' where f: "async_get_device reg {i} = Some d'"
    by auto
  then have "d' \<in> set (devices reg)" and "i \<in> identifiers d'"
    by (auto simp: async_get_device_def find_Some_iff)
  with ok d i have "d' = d"
    by (auto simp: registry_ok_def)
  with f show "async_get_device reg {i} = Some d"
    by simp
qed

lemma ex_registry_ok: "registry_ok (dev_reg ex_session)"
  by (simp add: registry_ok_def ex_session_def ex_device_def)

text \<open>
  C4. After the stale-device check of \<open>start_platforms\<close> the registry holds, in their
  old order and unchanged, exactly the devices it held before except those of the entry
  that carry the identifier of no node of the controller: those are removed, every
  device of a live node and every device of another entry stays as it is. With devices
  for the nodes 2, 3 and 4 and the live nodes 2 and 4, the device of node 3 alone is
  removed.
\<close>

theorem remove_stale_devices_exact:
  assumes "registry_ok (dev_reg s)"
  shows "devices (dev_reg (remove_stale_devices entry client s)) =
     filter (\<lambda>d. \<not> (entry_id entry \<in> config_entries d
                    \<and> (\<forall>node \<in> set (nodes client). get_device_id client node \<notin> identifiers d)))
       (devices (dev_reg s))"
proof -
  let ?reg = "dev_reg s"
  let ?known = "map (\<lambda>node. async_get_device ?reg {get_device_id client node}) (nodes client)"
  let ?stale = "\<lambda>d. Some d \<notin> set ?known"
  let ?stored = "async_entries_for_config_entry ?reg (entry_id entry)"
  have known: "?stale d \<longleftrightarrow> (\<forall>node \<in> set (nodes client). get_device_id client node \<notin> identifiers d)"
    if "d \<in> set (devices ?reg)" for d
  proof -
    have "Some d \<in> set ?known \<longleftrightarrow>
        (\<exists>node \<in> set (nodes client). async_get_device ?reg {get_device_id client node} = Some d)"
      by (simp add: image_iff eq_commute)
    also have "\<dots> \<longleftrightarrow> (\<exists>node \<in> set (nodes client). get_device_id client node \<in> identifiers d)"
      by (simp add: get_device_unique [OF assms that])
    finally show ?thesis by blast
  qed
  have ids: "dev_id x \<in> dev_id ` {d \<in> set ?stored. ?stale d} \<longleftrightarrow>
             entry_id entry \<in> config_entries x \<and> ?stale x"
    if "x \<in> set (devices ?reg)" for x
  proof
    assume "dev_id x \<in> dev_id ` {d \<in> set ?stored. ?stale d}"
    then obtain d where d: "d \<in> set ?stored" "?stale d" "dev_id x = dev_id d"
      by auto
    then have "d \<in> set (devices ?reg)"
      by (simp add: async_entries_for_config_entry_def)
    with assms that d(3) have "x = d"
      by (auto simp: registry_ok_def distinct_map inj_on_def)
    with d show "entry_id entry \<in> config_entries x \<and> ?stale x"
      by (simp add: async_entries_for_config_entry_def)
  next
    assume "entry_id entry \<in> config_entries x \<and> ?stale x"
    with that show "dev_id x \<in> dev_id ` {d \<in> set ?stored. ?stale d}"
      by (auto simp: async_entries_for_config_entry_def)
  qed
  have "devices (dev_reg (remove_stale_devices entry client s))
      = filter (\<lambda>x. dev_id x \<notin> dev_id ` {d \<in> set ?stored. ?stale d}) (devices ?reg)"
    by (simp add: remove_stale_devices_def Let_def fold_remove_devices)
  also have "\<dots> = filter (\<lambda>d. \<not> (entry_id entry \<in> config_entries d
                    \<and> (\<forall>node \<in> set (nodes client). get_device_id client node \<notin> identifiers d)))
       (devices ?reg)"
  proof (rule filter_cong [OF refl])
    fix x
    assume x: "x \<in> set (devices ?reg)"
    show "(dev_id x \<notin> dev_id ` {d \<in> set ?stored. ?stale d}) =
          (\<not> (entry_id entry \<in> config_entries x
              \<and> (\<forall>node \<in> set (nodes client). get_device_id client node \<notin> identifiers x)))"
      using ids [OF x] known [OF x] by blast
  qed
  finally show ?thesis .
qed

theorem remove_stale_devices_exact_witness:
  "registry_ok (dev_reg ex_session)
   \<and> devices (dev_reg (remove_stale_devices ex_entry ex_client ex_session))
      = [ex_device 10 2, ex_device 12 4]"
  using remove_stale_devices_exact [OF ex_registry_ok, of ex_entry ex_client] ex_registry_ok
  by (simp add: ex_session_def ex_device_def ex_client_def ex_entry_def ex_node_def get_device_id_def)

section \<open>The device registry: registering a node again\<close>

lemma fresh_dev_id_fresh: "x \<in> set ds \<Longrightarrow> dev_id x < fresh_dev_id ds"
  unfolding fresh_dev_id_def by (induction ds) auto

lemma find_snoc:
  "find P xs = None \<Longrightarrow> P x \<Longrightarrow> find P (xs @ [x]) = Some x"
  by (induction xs) (auto split: if_splits)

lemma find_map_update:
  "find P xs = Some old \<Longrightarrow> P d \<Longrightarrow>
   find P (map (\<lambda>x. if dev_id x = dev_id old then d else x) xs) = Some d"
  by (induction xs) (auto split: if_splits)

lemma map_update_fresh:
  "\<forall>x \<in> set xs. dev_id x \<noteq> k \<Longrightarrow> map (\<lambda>x. if dev_id x = k then d else x) xs = xs"
  by (induction xs) auto

lemma map_update_twice:
  "dev_id d0 = k \<Longrightarrow>
   map (\<lambda>x. if dev_id x = dev_id d0 then d1 else x) (map (\<lambda>x. if dev_id x = k then d0 else x) xs)
     = map (\<lambda>x. if dev_id x = k then d1 else x) xs"
  by (induction xs) auto

lemma updated_new_device:
  assumes "p_identifiers p1 = p_identifiers p0"
    and "p_config_entry_id p1 = p_config_entry_id p0"
    and "p_suggested_area p1 = None \<longrightarrow> p_suggested_area p0 = None"
  shows "updated_device (new_device ds p0) p1 = new_device ds p1"
  using assms by (cases "p_suggested_area p1") (simp_all add: updated_device_def new_device_def)

lemma updated_updated_device:
  assumes "p_identifiers p1 = p_identifiers p0"
    and "p_config_entry_id p1 = p_config_entry_id p0"
    and "p_suggested_area p1 = None \<longrightarrow> p_suggested_area p0 = None"
  shows "updated_device (updated_device old p0) p1 = updated_device old p1"
  using assms by (cases "p_suggested_area p1") (simp_all add: updated_device_def)

text \<open>
  Registering with the same identifiers and entry a second time gives what the second
  registration alone gives, as long as the second does not leave out an area that the
  first one set.
\<close>

lemma get_or_create_twice:
  assumes ne: "p_identifiers p0 \<noteq> {}"
    and ids: "p_identifiers p1 = p_identifiers p0"
    and ent: "p_config_entry_id p1 = p_config_entry_id p0"
    and area: "p_suggested_area p1 = None \<longrightarrow> p_suggested_area p0 = None"
  shows "async_get_or_create (snd (async_get_or_create reg p0)) p1 = async_get_or_create reg p1"
proof (cases "async_get_device reg (p_identifiers p0)")
  case None
  let ?d0 = "new_device (devices reg) p0"
  have first: "snd (async_get_or_create reg p0) = reg\<lparr>devices := devices reg @ [?d0]\<rparr>"
    using None by (simp add: async_get_or_create_def)
  have "find (\<lambda>d. identifiers d \<inter> p_identifiers p0 \<noteq> {}) (devices reg @ [?d0]) = Some ?d0"
    using None ne by (intro find_snoc) (simp_all add: async_get_device_def new_device_def)
  then have found: "async_get_device (reg\<lparr>devices := devices reg @ [?d0]\<rparr>) (p_identifiers p1) = Some ?d0"
    by (simp add: async_get_device_def ids)
  have keep: "map (\<lambda>x. if dev_id x = dev_id ?d0 then d else x) (devices reg) = devices reg" for d
    by (rule map_update_fresh) (use fresh_dev_id_fresh in \<open>fastforce simp: new_device_def\<close>)
  have second: "async_get_or_create (reg\<lparr>devices := devices reg @ [?d0]\<rparr>) p1
      = (updated_device ?d0 p1, reg\<lparr>devices := devices reg @ [updated_device ?d0 p1]\<rparr>)"
    unfolding async_get_or_create_def found by (simp add: keep)
  have direct: "async_get_or_create reg p1
      = (new_device (devices reg) p1, reg\<lparr>devices := devices reg @ [new_device (devices reg) p1]\<rparr>)"
    using None by (simp add: async_get_or_create_def ids)
  show ?thesis
    by (simp only: first second direct updated_new_device [OF ids ent area])
next
  case (Some old)
  let ?d0 = "updated_device old p0"
  let ?devs0 = "map (\<lambda>x. if dev_id x = dev_id old then ?d0 else x) (devices reg)"
  have first: "snd (async_get_or_create reg p0) = reg\<lparr>devices := ?devs0\<rparr>"
    using Some by (simp add: async_get_or_create_def)
  have "identifiers old \<inter> p_identifiers p0 \<noteq> {}"
    using Some by (auto simp: async_get_device_def find_Some_iff)
  then have "identifiers ?d0 \<inter> p_identifiers p0 \<noteq> {}"
    by (auto simp: updated_device_def)
  with Some have "find (\<lambda>d. identifiers d \<inter> p_identifiers p0 \<noteq> {}) ?devs0 = Some ?d0"
    unfolding async_get_device_def by (intro find_map_update) simp_all
  then have found: "async_get_device (reg\<lparr>devices := ?devs0\<rparr>) (p_identifiers p1) = Some ?d0"
    by (simp add: async_get_device_def ids)
  have id0: "dev_id ?d0 = dev_id old"
    by (simp add: updated_device_def)
  have twice: "map (\<lambda>x. if dev_id x = dev_id ?d0 then d else x) ?devs0
      = map (\<lambda>x. if dev_id x = dev_id old then d else x) (devices reg)" for d
    by (rule map_update_twice) (rule id0)
  have second: "async_get_or_create (reg\<lparr>devices := ?devs0\<rparr>) p1
      = (updated_device ?d0 p1,
         reg\<lparr>devices := map (\<lambda>x. if dev_id x = dev_id old then updated_device ?d0 p1 else x) (devices reg)\<rparr>)"
    unfolding async_get_or_create_def found by (simp del: map_map add: twice)
  have direct: "async_get_or_create reg p1
      = (updated_device old p1,
         reg\<lparr>devices := map (\<lambda>x. if dev_id x = dev_id old then updated_device old p1 else x) (devices reg)\<rparr>)"
    using Some by (simp add: async_get_or_create_def ids)
  show ?thesis
    by (simp only: first second direct updated_updated_device [OF ids ent area])
qed

lemma get_or_create_idem:
  assumes "p_identifiers p \<noteq> {}"
  shows "async_get_or_create (snd (async_get_or_create reg p)) p = async_get_or_create reg p"
  using assms by (intro get_or_create_twice) simp_all

lemma node_params_same_identity:
  assumes "node_id n1 = node_id n0"
  shows "p_identifiers (node_params entry client n1) = p_identifiers (node_params entry client n0)"
    and "p_config_entry_id (node_params entry client n1) = p_config_entry_id (node_params entry client n0)"
    and "p_identifiers (node_params entry client n0) \<noteq> {}"
  using assms by (simp_all add: node_params_def get_device_id_def)

lemma node_params_area:
  "(p_suggested_area (node_params entry client n1) = None \<longrightarrow>
      p_suggested_area (node_params entry client n0) = None)
   \<longleftrightarrow> (truthy (location n0) \<longrightarrow> truthy (location n1))"
  by (cases "location n0"; cases "location n1") (auto simp: node_params_def)

lemma register_node_unfold:
  "register_node_in_dev_reg entry client node s =
     s\<lparr>dev_reg := snd (async_get_or_create (dev_reg s) (node_params entry client node)),
       dispatcher := dispatcher s @
         [EVENT_DEVICE_ADDED_TO_REGISTRY
            (fst (async_get_or_create (dev_reg s) (node_params entry client node)))]\<rparr>"
  by (simp add: register_node_in_dev_reg_def split_beta)

lemma register_node_twice:
  assumes "node_id n1 = node_id n0" and "truthy (location n0) \<longrightarrow> truthy (location n1)"
  shows "register_node_in_dev_reg entry client n1 (register_node_in_dev_reg entry client n0 s)
     = (register_node_in_dev_reg entry client n1 s)
         \<lparr>dispatcher := dispatcher s @
            [EVENT_DEVICE_ADDED_TO_REGISTRY
               (fst (async_get_or_create (dev_reg s) (node_params entry client n0))),
             EVENT_DEVICE_ADDED_TO_REGISTRY
               (fst (async_get_or_create (dev_reg s) (node_params entry client n1)))]\<rparr>"
proof -
  have "async_get_or_create (snd (async_get_or_create (dev_reg s) (node_params entry client n0)))
          (node_params entry client n1)
        = async_get_or_create (dev_reg s) (node_params entry client n1)"
    using node_params_same_identity [OF assms(1)] assms(2)
    by (intro get_or_create_twice) (simp_all add: node_params_area)
  then show ?thesis
    by (simp add: register_node_unfold)
qed

section \<open>The discovery loop\<close>

lemma entity_signals_append:
  "entity_signals (xs @ ys) = entity_signals xs @ entity_signals ys"
  by (induction xs rule: entity_signals.induct) simp_all

lemma await_done:
  "map_of (platform_setup_tasks s) p = Some (TaskDone r) \<Longrightarrow> await_platform_setup e p s = (r, s)"
  by (simp add: await_platform_setup_def)

lemma await_keeps_done:
  assumes "map_of (platform_setup_tasks s) p = Some (TaskDone r)"
  shows "map_of (platform_setup_tasks (snd (await_platform_setup e q s))) p = Some (TaskDone r)"
  using assms
  by (auto simp: await_platform_setup_def update_conv' split: option.splits setup_task.splits)

lemma await_result_done:
  assumes "await_platform_setup e p s = (r, s')" and "p \<in> fst ` set (platform_setup_tasks s)"
  shows "map_of (platform_setup_tasks s') p = Some (TaskDone r)"
proof -
  from assms(2) obtain t where "map_of (platform_setup_tasks s) p = Some t"
    by (metis domD dom_map_of_conv_image_fst)
  with assms(1) show ?thesis
    by (cases t) (auto simp: await_platform_setup_def update_conv')
qed

lemma await_frame:
  "dev_reg (snd (await_platform_setup e p s)) = dev_reg s"
  "bus (snd (await_platform_setup e p s)) = bus s"
  "dispatcher (snd (await_platform_setup e p s)) = dispatcher s"
  "migrated (snd (await_platform_setup e p s)) = migrated s"
  "unsubscribe_callbacks (snd (await_platform_setup e p s)) = unsubscribe_callbacks s"
  "ready_waiters (snd (await_platform_setup e p s)) = ready_waiters s"
  by (simp_all add: await_platform_setup_def split: option.splits setup_task.splits)

lemma discovery_loop_Cons:
  "discovery_loop e entry (d # ds) s =
     (let s2 = (if platform d \<notin> fst ` set (platform_setup_tasks s)
                then s\<lparr>migrated := migrated s @ [d],
                       platform_setup_tasks := platform_setup_tasks s @ [(platform d, TaskPending)]\<rparr>
                else s\<lparr>migrated := migrated s @ [d]\<rparr>);
          a = await_platform_setup e (platform d) s2
      in case fst a of
           Inl err \<Rightarrow> (Inl err, snd a)
         | Inr _ \<Rightarrow>
             discovery_loop e entry ds
               ((snd a)\<lparr>dispatcher := dispatcher (snd a) @ [entity_discovered entry d]\<rparr>))"
  by (simp add: Let_def split_beta split: sum.split)

declare discovery_loop.simps(2) [simp del]

lemma discovery_loop_frame:
  "dev_reg (snd (discovery_loop e entry ds s)) = dev_reg s
   \<and> bus (snd (discovery_loop e entry ds s)) = bus s
   \<and> unsubscribe_callbacks (snd (discovery_loop e entry ds s)) = unsubscribe_callbacks s
   \<and> ready_waiters (snd (discovery_loop e entry ds s)) = ready_waiters s"
proof (induction ds arbitrary: s)
  case Nil
  show ?case by simp
next
  case (Cons d ds)
  show ?case
    by (simp add: discovery_loop_Cons Let_def Cons.IH await_frame split: sum.splits)
qed

lemma discovery_loop_keeps_done:
  assumes "map_of (platform_setup_tasks s) p = Some (TaskDone r)"
  shows "map_of (platform_setup_tasks (snd (discovery_loop e entry ds s))) p = Some (TaskDone r)"
  using assms
proof (induction ds arbitrary: s)
  case Nil
  then show ?case by simp
next
  case (Cons d ds)
  let ?s2 = "(if platform d \<notin> fst ` set (platform_setup_tasks s)
                then s\<lparr>migrated := migrated s @ [d],
                       platform_setup_tasks := platform_setup_tasks s @ [(platform d, TaskPending)]\<rparr>
                else s\<lparr>migrated := migrated s @ [d]\<rparr>)"
  let ?a = "await_platform_setup e (platform d) ?s2"
  from Cons.prems have "map_of (platform_setup_tasks ?s2) p = Some (TaskDone r)"
    by (simp add: map_add_Some_iff)
  then have a: "map_of (platform_setup_tasks (snd ?a)) p = Some (TaskDone r)"
    by (rule await_keeps_done)
  show ?case
  proof (cases "fst ?a")
    case (Inl err)
    with a show ?thesis
      by (simp add: discovery_loop_Cons Let_def)
  next
    case (Inr b)
    from a have "map_of (platform_setup_tasks (snd (discovery_loop e entry ds
        ((snd ?a)\<lparr>dispatcher := dispatcher (snd ?a) @ [entity_discovered entry d]\<rparr>)))) p
        = Some (TaskDone r)"
      by (intro Cons.IH) simp
    with Inr show ?thesis
      by (simp add: discovery_loop_Cons Let_def)
  qed
qed

text \<open>After a pass that did not raise, the setup of every platform it met has succeeded.\<close>

lemma discovery_loop_success_done:
  assumes "fst (discovery_loop e entry ds s) = Inr ()" and "d \<in> set ds"
  shows "\<exists>b. map_of (platform_setup_tasks (snd (discovery_loop e entry ds s))) (platform d)
           = Some (TaskDone (Inr b))"
  using assms
proof (induction ds arbitrary: s)
  case Nil
  then show ?case by simp
next
  case (Cons x ds)
  let ?s2 = "(if platform x \<notin> fst ` set (platform_setup_tasks s)
                then s\<lparr>migrated := migrated s @ [x],
                       platform_setup_tasks := platform_setup_tasks s @ [(platform x, TaskPending)]\<rparr>
                else s\<lparr>migrated := migrated s @ [x]\<rparr>)"
  let ?a = "await_platform_setup e (platform x) ?s2"
  let ?s3 = "(snd ?a)\<lparr>dispatcher := dispatcher (snd ?a) @ [entity_discovered entry x]\<rparr>"
  from Cons.prems(1) obtain b where b: "fst ?a = Inr b"
    by (cases "fst ?a") (simp_all add: discovery_loop_Cons Let_def)
  then have loop: "discovery_loop e entry (x # ds) s = discovery_loop e entry ds ?s3"
    by (simp add: discovery_loop_Cons Let_def)
  show ?case
  proof (cases "d \<in> set ds")
    case True
    with Cons.prems(1) loop show ?thesis
      by (simp add: Cons.IH)
  next
    case False
    with Cons.prems(2) have dx: "d = x" by simp
    have "platform x \<in> fst ` set (platform_setup_tasks ?s2)"
      by simp
    with b have "map_of (platform_setup_tasks (snd ?a)) (platform x) = Some (TaskDone (Inr b))"
      by (intro await_result_done [where s = ?s2 and e = e]) (simp_all add: prod_eq_iff)
    then have "map_of (platform_setup_tasks ?s3) (platform x) = Some (TaskDone (Inr b))"
      by simp
    then have "map_of (platform_setup_tasks (snd (discovery_loop e entry ds ?s3))) (platform x)
        = Some (TaskDone (Inr b))"
      by (rule discovery_loop_keeps_done)
    with loop dx show ?thesis by simp
  qed
qed

text \<open>
  When the setup of every platform of the descriptors has succeeded, a pass creates no
  task and publishes every descriptor.
\<close>

lemma discovery_loop_all_done:
  assumes "\<forall>d \<in> set ds. \<exists>b. map_of (platform_setup_tasks s) (platform d) = Some (TaskDone (Inr b))"
  shows "discovery_loop e entry ds s =
     (Inr (), s\<lparr>migrated := migrated s @ ds,
                dispatcher := dispatcher s @ map (entity_discovered entry) ds\<rparr>)"
  using assms
proof (induction ds arbitrary: s)
  case Nil
  then show ?case by simp
next
  case (Cons x ds)
  from Cons.prems obtain b where b: "map_of (platform_setup_tasks s) (platform x) = Some (TaskDone (Inr b))"
    by auto
  then have known: "platform x \<in> fst ` set (platform_setup_tasks s)"
    by (metis domI dom_map_of_conv_image_fst)
  let ?s1 = "s\<lparr>migrated := migrated s @ [x]\<rparr>"
  have a: "await_platform_setup e (platform x) ?s1 = (Inr b, ?s1)"
    using b by (intro await_done) simp
  let ?s3 = "?s1\<lparr>dispatcher := dispatcher ?s1 @ [entity_discovered entry x]\<rparr>"
  have "discovery_loop e entry (x # ds) s = discovery_loop e entry ds ?s3"
    using known a by (simp add: discovery_loop_Cons Let_def)
  also have "\<dots> = (Inr (), ?s3\<lparr>migrated := migrated ?s3 @ ds,
                dispatcher := dispatcher ?s3 @ map (entity_discovered entry) ds\<rparr>)"
    using Cons.prems by (intro Cons.IH) simp
  finally show ?case by simp
qed

section \<open>NodeReadinessCoordinator: the ready handler invoked again\<close>

lemma node_ready_waiters:
  "ready_waiters (snd (async_on_node_ready e entry client node s)) = ready_waiters s"
  by (simp add: async_on_node_ready_def Let_def split_beta discovery_loop_frame
      register_node_unfold split: sum.split)

lemma run_ready_tasks_waiters:
  "ready_waiters (run_ready_tasks k e entry client node s) = ready_waiters s"
  by (induction k arbitrary: s) (simp_all add: node_ready_waiters)

lemma emit_once_absent: "n \<notin> set ws \<Longrightarrow> emit_once runs n ws = ws"
  by (induction ws arbitrary: runs) auto

lemma emit_once_append:
  "n \<notin> set xs \<Longrightarrow> emit_once runs n (xs @ ys) = xs @ emit_once runs n ys"
  by (induction xs arbitrary: runs) auto

lemma count_emit_once:
  "count_list (emit_once runs n ws) n =
     (if runs then count_list ws n div 2 else (count_list ws n + 1) div 2)"
  by (induction ws arbitrary: runs) auto

lemma node_ready_event_again:
  assumes "count_list (ready_waiters s) (node_id node) \<le> 1"
  shows "node_ready_event e entry client node (node_ready_event e entry client node s)
     = node_ready_event e entry client node s"
proof -
  let ?t = "node_ready_event e entry client node s"
  have w: "ready_waiters ?t = emit_once True (node_id node) (ready_waiters s)"
    by (simp add: node_ready_event_def run_ready_tasks_waiters)
  have c: "count_list (ready_waiters ?t) (node_id node) = 0"
    using assms by (simp add: w count_emit_once)
  then have "node_id node \<notin> set (ready_waiters ?t)"
    by (simp add: count_list_0_iff)
  then have "emit_once True (node_id node) (ready_waiters ?t) = ready_waiters ?t"
    by (rule emit_once_absent)
  with c show ?thesis
    by (simp add: node_ready_event_def [of e entry client node ?t])
qed

lemma node_ready_again:
  assumes first: "async_on_node_ready e entry client node s = (Inr (), s1)"
  shows "async_on_node_ready e entry client node s1 =
     (Inr (),
      s1\<lparr>dispatcher := dispatcher s1 @
             EVENT_DEVICE_ADDED_TO_REGISTRY
               (fst (async_get_or_create (dev_reg s) (node_params entry client node)))
             # map (entity_discovered entry) (async_discover_values e node),
         migrated := migrated s1 @ async_discover_values e node,
         unsubscribe_callbacks := unsubscribe_callbacks s1 @
           [ValueNotificationListener (node_id node), NotificationListener (node_id node)]\<rparr>)"
proof -
  let ?p = "node_params entry client node"
  let ?ds = "async_discover_values e node"
  let ?R = "register_node_in_dev_reg entry client node s"
  let ?L = "discovery_loop e entry ?ds ?R"
  from first have ok: "fst ?L = Inr ()"
    and s1: "s1 = (snd ?L)\<lparr>unsubscribe_callbacks := unsubscribe_callbacks (snd ?L) @
           [ValueNotificationListener (node_id node), NotificationListener (node_id node)]\<rparr>"
    by (auto simp: async_on_node_ready_def Let_def split_beta split: sum.splits)
  have reg1: "dev_reg s1 = snd (async_get_or_create (dev_reg s) ?p)"
    by (simp add: s1 discovery_loop_frame register_node_unfold)
  have ne: "p_identifiers ?p \<noteq> {}"
    by (simp add: node_params_def)
  have again: "register_node_in_dev_reg entry client node s1 =
      s1\<lparr>dispatcher := dispatcher s1 @
         [EVENT_DEVICE_ADDED_TO_REGISTRY (fst (async_get_or_create (dev_reg s) ?p))]\<rparr>"
    by (simp add: register_node_unfold [of _ _ _ s1] reg1 get_or_create_idem [OF ne])
  let ?R1 = "register_node_in_dev_reg entry client node s1"
  have tasks1: "platform_setup_tasks ?R1 = platform_setup_tasks (snd ?L)"
    by (simp add: register_node_unfold s1)
  have "\<forall>d \<in> set ?ds. \<exists>b. map_of (platform_setup_tasks ?R1) (platform d) = Some (TaskDone (Inr b))"
  proof
    fix d
    assume "d \<in> set ?ds"
    from discovery_loop_success_done [OF ok this]
    show "\<exists>b. map_of (platform_setup_tasks ?R1) (platform d) = Some (TaskDone (Inr b))"
      by (simp only: tasks1)
  qed
  then have "discovery_loop e entry ?ds ?R1 =
     (Inr (), ?R1\<lparr>migrated := migrated ?R1 @ ?ds,
                dispatcher := dispatcher ?R1 @ map (entity_discovered entry) ?ds\<rparr>)"
    by (rule discovery_loop_all_done)
  then show ?thesis
    by (simp add: async_on_node_ready_def [of e entry client node s1] again)
qed

lemma ex_ready_once:
  "async_on_node_ready ex_env ex_entry ex_client (ex_node 3 True) ex_session =
     (Inr (),
      ex_session
        \<lparr>dispatcher := [EVENT_DEVICE_ADDED_TO_REGISTRY (ex_device 11 3),
                        entity_discovered ex_entry ex_disc_info],
         migrated := [ex_disc_info],
         platform_setup_tasks := [(''light'', TaskDone (Inr True))],
         unsubscribe_callbacks := [ValueNotificationListener 3, NotificationListener 3]\<rparr>)"
  by (simp add: async_on_node_ready_def register_node_unfold async_get_or_create_def
      async_get_device_def node_params_def get_device_id_def updated_device_def
      discovery_loop_Cons await_platform_setup_def Let_def
      ex_env_def ex_entry_def ex_client_def ex_node_def ex_session_def ex_device_def
      ex_disc_info_def)

lemma ex_ready_again:
  "async_on_node_ready ex_env ex_entry ex_client (ex_node 3 True) ex_session_ready =
     (Inr (),
      ex_session_ready
        \<lparr>dispatcher := [EVENT_DEVICE_ADDED_TO_REGISTRY (ex_device 11 3),
                        entity_discovered ex_entry ex_disc_info,
                        EVENT_DEVICE_ADDED_TO_REGISTRY (ex_device 11 3),
                        entity_discovered ex_entry ex_disc_info],
         migrated := [ex_disc_info, ex_disc_info],
         unsubscribe_callbacks := [ValueNotificationListener 3, NotificationListener 3,
                                   ValueNotificationListener 3, NotificationListener 3]\<rparr>)"
  by (simp add: async_on_node_ready_def register_node_unfold async_get_or_create_def
      async_get_device_def node_params_def get_device_id_def updated_device_def
      discovery_loop_Cons await_platform_setup_def Let_def ex_session_ready_def
      ex_env_def ex_entry_def ex_client_def ex_node_def ex_session_def ex_device_def
      ex_disc_info_def)

text \<open>
  C2, as amended. \<open>async_on_node_ready\<close> has no guard against a second invocation.
  Invoked again for a node after an invocation that did not raise, it leaves the device
  registry and the platform-setup tasks as they are, and it registers and discovers
  again: it dispatches the device signal once more, hands every descriptor to the
  migration and publishes it once more, and subscribes the two notification listeners
  once more. A duplicate \<^verbatim>\<open>ready\<close> event reaches no handler when the node has at
  most one callback registered with \<^verbatim>\<open>node.once\<close> (it was added once): the first
  event takes the callback out. With more callbacks registered, the first event passes
  over every second one, and a later event runs the handler again.
\<close>

theorem node_ready_twice:
  "(async_on_node_ready e entry client node s = (Inr (), s1) \<longrightarrow>
      async_on_node_ready e entry client node s1 =
        (Inr (),
         s1\<lparr>dispatcher := dispatcher s1 @
                EVENT_DEVICE_ADDED_TO_REGISTRY
                  (fst (async_get_or_create (dev_reg s) (node_params entry client node)))
                # map (entity_discovered entry) (async_discover_values e node),
            migrated := migrated s1 @ async_discover_values e node,
            unsubscribe_callbacks := unsubscribe_callbacks s1 @
              [ValueNotificationListener (node_id node), NotificationListener (node_id node)]\<rparr>))
   \<and> (count_list (ready_waiters s) (node_id node) \<le> 1 \<longrightarrow>
      node_ready_event e entry client node (node_ready_event e entry client node s)
        = node_ready_event e entry client node s)"
  using node_ready_again [of e entry client node s s1]
    node_ready_event_again [of s node e entry client]
  by blast

theorem node_ready_twice_witness:
  "async_on_node_ready ex_env ex_entry ex_client (ex_node 3 True) ex_session
     = (Inr (), ex_session_ready)
   \<and> fst (async_on_node_ready ex_env ex_entry ex_client (ex_node 3 True) ex_session_ready) = Inr ()
   \<and> dev_reg (snd (async_on_node_ready ex_env ex_entry ex_client (ex_node 3 True) ex_session_ready))
       = dev_reg ex_session_ready
   \<and> platform_setup_tasks
        (snd (async_on_node_ready ex_env ex_entry ex_client (ex_node 3 True) ex_session_ready))
       = platform_setup_tasks ex_session_ready
   \<and> entity_signals (dispatcher
        (snd (async_on_node_ready ex_env ex_entry ex_client (ex_node 3 True) ex_session_ready)))
       = entity_signals (dispatcher ex_session_ready)
           @ [(''zwave_js_entry1_add_light'', ex_disc_info)]
   \<and> count_list (ready_waiters
        (snd (async_on_node_added ex_env ex_entry ex_client (ex_unready_node 5) ex_session))) 5 = 1
   \<and> node_ready_event ex_env ex_entry ex_client (ex_node 5 True)
        (node_ready_event ex_env ex_entry ex_client (ex_node 5 True)
           (snd (async_on_node_added ex_env ex_entry ex_client (ex_unready_node 5) ex_session)))
       = node_ready_event ex_env ex_entry ex_client (ex_node 5 True)
           (snd (async_on_node_added ex_env ex_entry ex_client (ex_unready_node 5) ex_session))"
proof -
  let ?s5 = "snd (async_on_node_added ex_env ex_entry ex_client (ex_unready_node 5) ex_session)"
  have waiting: "ready_waiters ?s5 = [5]"
    by (simp add: async_on_node_added_def register_node_unfold ex_unready_node_def ex_session_def)
  have five: "node_id (ex_node 5 True) = 5"
    by (simp add: ex_node_def)
  from node_ready_twice [of ex_env ex_entry ex_client "ex_node 5 True" ?s5 ?s5] waiting five
  have again: "node_ready_event ex_env ex_entry ex_client (ex_node 5 True)
        (node_ready_event ex_env ex_entry ex_client (ex_node 5 True) ?s5)
       = node_ready_event ex_env ex_entry ex_client (ex_node 5 True) ?s5"
    by simp
  have first: "async_on_node_ready ex_env ex_entry ex_client (ex_node 3 True) ex_session
     = (Inr (), ex_session_ready)"
    by (simp add: ex_ready_once ex_session_ready_def)
  have ds: "async_discover_values ex_env (ex_node 3 True) = [ex_disc_info]"
    by (simp add: ex_env_def ex_node_def ex_disc_info_def)
  have sig: "entity_discovered ex_entry ex_disc_info
      = EntityDiscovered ''zwave_js_entry1_add_light'' ex_disc_info"
    by (simp add: entity_discovered_def DOMAIN_def ex_entry_def ex_disc_info_def)
  from node_ready_twice
    [of ex_env ex_entry ex_client "ex_node 3 True" ex_session ex_session_ready] first
  have "async_on_node_ready ex_env ex_entry ex_client (ex_node 3 True) ex_session_ready =
        (Inr (),
         ex_session_ready\<lparr>dispatcher := dispatcher ex_session_ready @
                EVENT_DEVICE_ADDED_TO_REGISTRY
                  (fst (async_get_or_create (dev_reg ex_session)
                     (node_params ex_entry ex_client (ex_node 3 True))))
                # map (entity_discovered ex_entry) (async_discover_values ex_env (ex_node 3 True)),
            migrated := migrated ex_session_ready @ async_discover_values ex_env (ex_node 3 True),
            unsubscribe_callbacks := unsubscribe_callbacks ex_session_ready @
              [ValueNotificationListener (node_id (ex_node 3 True)),
               NotificationListener (node_id (ex_node 3 True))]\<rparr>)"
    by blast
  with first have "fst (async_on_node_ready ex_env ex_entry ex_client (ex_node 3 True) ex_session_ready)
        = Inr ()
   \<and> dev_reg (snd (async_on_node_ready ex_env ex_entry ex_client (ex_node 3 True) ex_session_ready))
       = dev_reg ex_session_ready
   \<and> platform_setup_tasks
        (snd (async_on_node_ready ex_env ex_entry ex_client (ex_node 3 True) ex_session_ready))
       = platform_setup_tasks ex_session_ready
   \<and> entity_signals (dispatcher
        (snd (async_on_node_ready ex_env ex_entry ex_client (ex_node 3 True) ex_session_ready)))
       = entity_signals (dispatcher ex_session_ready)
           @ [(''zwave_js_entry1_add_light'', ex_disc_info)]"
    by (simp add: ds sig entity_signals_append)
  with first again waiting show ?thesis
    by simp
qed

text \<open>
  The claim as stated fails: after two invocations for node 3 two device signals and
  two entity-discovered signals have been dispatched, not one of each.
\<close>

theorem node_ready_twice_counterexample:
  "async_on_node_ready ex_env ex_entry ex_client (ex_node 3 True) ex_session
     = (Inr (), ex_session_ready)
   \<and> length (device_signals (dispatcher (snd
        (async_on_node_ready ex_env ex_entry ex_client (ex_node 3 True) ex_session_ready)))) = 2
   \<and> length (entity_signals (dispatcher (snd
        (async_on_node_ready ex_env ex_entry ex_client (ex_node 3 True) ex_session_ready)))) = 2"
proof -
  have "async_on_node_ready ex_env ex_entry ex_client (ex_node 3 True) ex_session
     = (Inr (), ex_session_ready)"
    by (simp add: ex_ready_once ex_session_ready_def)
  then show ?thesis
    by (simp add: ex_ready_again entity_discovered_def)
qed

section \<open>NodeReadinessCoordinator: the two readiness paths\<close>

lemma await_same:
  assumes "same_registry_and_entities s t"
  shows "fst (await_platform_setup e p s) = fst (await_platform_setup e p t)
     \<and> same_registry_and_entities (snd (await_platform_setup e p s)) (snd (await_platform_setup e p t))"
  using assms
  by (auto simp: same_registry_and_entities_def await_platform_setup_def
      split: option.splits setup_task.splits)

lemma discovery_loop_same:
  assumes "same_registry_and_entities s t"
  shows "fst (discovery_loop e entry ds s) = fst (discovery_loop e entry ds t)
     \<and> same_registry_and_entities (snd (discovery_loop e entry ds s)) (snd (discovery_loop e entry ds t))"
  using assms
proof (induction ds arbitrary: s t)
  case Nil
  then show ?case by simp
next
  case (Cons d ds)
  let ?pre = "\<lambda>s. (if platform d \<notin> fst ` set (platform_setup_tasks s)
                then s\<lparr>migrated := migrated s @ [d],
                       platform_setup_tasks := platform_setup_tasks s @ [(platform d, TaskPending)]\<rparr>
                else s\<lparr>migrated := migrated s @ [d]\<rparr>)"
  let ?a = "\<lambda>s. await_platform_setup e (platform d) (?pre s)"
  let ?post = "\<lambda>s. (snd (?a s))\<lparr>dispatcher := dispatcher (snd (?a s)) @ [entity_discovered entry d]\<rparr>"
  from Cons.prems have "same_registry_and_entities (?pre s) (?pre t)"
    by (simp add: same_registry_and_entities_def)
  then have a: "fst (?a s) = fst (?a t)" "same_registry_and_entities (snd (?a s)) (snd (?a t))"
    using await_same by blast+
  from a(2) have post: "same_registry_and_entities (?post s) (?post t)"
    by (simp add: same_registry_and_entities_def entity_signals_append)
  show ?case
  proof (cases "fst (?a t)")
    case (Inl err)
    with a show ?thesis
      by (simp add: discovery_loop_Cons Let_def)
  next
    case (Inr b)
    with a(1) Cons.IH [OF post] show ?thesis
      by (simp add: discovery_loop_Cons Let_def)
  qed
qed

lemma added_then_ready:
  assumes "\<not> ready n0" and "node_id n1 = node_id n0" and "node_id n0 \<notin> set (ready_waiters s)"
  shows "node_ready_event e entry client n1 (snd (async_on_node_added e entry client n0 s))
     = snd (async_on_node_ready e entry client n1 (register_node_in_dev_reg entry client n0 s))"
proof -
  let ?s1 = "register_node_in_dev_reg entry client n0 (s\<lparr>ready_waiters := ready_waiters s @ [node_id n0]\<rparr>)"
  have added: "snd (async_on_node_added e entry client n0 s) = ?s1"
    using assms(1) by (simp add: async_on_node_added_def)
  have w: "ready_waiters ?s1 = ready_waiters s @ [node_id n0]"
    by (simp add: register_node_unfold)
  have cnt: "(count_list (ready_waiters ?s1) (node_id n1) + 1) div 2 = Suc 0"
    using assms(2,3) by (simp add: w count_list_0_iff)
  have "emit_once True (node_id n1) (ready_waiters ?s1) = ready_waiters s"
    using assms(2,3) by (simp add: w emit_once_append)
  then have rem: "?s1\<lparr>ready_waiters := emit_once True (node_id n1) (ready_waiters ?s1)\<rparr>
      = register_node_in_dev_reg entry client n0 s"
    by (simp add: register_node_unfold)
  show ?thesis
    by (simp only: added node_ready_event_def cnt rem run_ready_tasks.simps)
qed

lemma node_ready_dev_reg:
  "dev_reg (snd (async_on_node_ready e entry client node s))
     = snd (async_get_or_create (dev_reg s) (node_params entry client node))"
  by (simp add: async_on_node_ready_def Let_def split_beta discovery_loop_frame
      register_node_unfold split: sum.split)

lemma get_or_create_new:
  assumes "async_get_device reg (p_identifiers p) = None"
  shows "snd (async_get_or_create reg p) = reg\<lparr>devices := devices reg @ [new_device (devices reg) p]\<rparr>"
  using assms by (simp add: async_get_or_create_def)

lemma get_or_create_new_then:
  assumes none: "async_get_device reg (p_identifiers p0) = None"
    and ne: "p_identifiers p0 \<noteq> {}" and ids: "p_identifiers p1 = p_identifiers p0"
  shows "snd (async_get_or_create (snd (async_get_or_create reg p0)) p1)
     = reg\<lparr>devices := devices reg @ [updated_device (new_device (devices reg) p0) p1]\<rparr>"
proof -
  let ?d0 = "new_device (devices reg) p0"
  have "find (\<lambda>d. identifiers d \<inter> p_identifiers p0 \<noteq> {}) (devices reg @ [?d0]) = Some ?d0"
    using none ne by (intro find_snoc) (simp_all add: async_get_device_def new_device_def)
  then have found: "async_get_device (reg\<lparr>devices := devices reg @ [?d0]\<rparr>) (p_identifiers p1) = Some ?d0"
    by (simp add: async_get_device_def ids)
  have keep: "map (\<lambda>x. if dev_id x = dev_id ?d0 then d else x) (devices reg) = devices reg" for d
    by (rule map_update_fresh) (use fresh_dev_id_fresh in \<open>fastforce simp: new_device_def\<close>)
  have "async_get_or_create (reg\<lparr>devices := devices reg @ [?d0]\<rparr>) p1
      = (updated_device ?d0 p1, reg\<lparr>devices := devices reg @ [updated_device ?d0 p1]\<rparr>)"
    unfolding async_get_or_create_def found by (simp add: keep)
  then show ?thesis
    by (simp add: get_or_create_new [OF none])
qed

lemma ex_added_ready_entities:
  "entity_signals (dispatcher (snd
      (async_on_node_added ex_env ex_entry ex_client (ex_located_node ''Kitchen'') ex_session)))
   = [(''zwave_js_entry1_add_light'', ex_disc_info)]"
  by (simp add: async_on_node_added_def async_on_node_ready_def register_node_unfold
      discovery_loop_Cons await_platform_setup_def Let_def entity_discovered_def DOMAIN_def
      ex_env_def ex_entry_def ex_node_def ex_located_node_def ex_session_def ex_disc_info_def)

text \<open>
  C8, as amended. A node added while not ready (\<open>n0\<close>) and later reported ready (\<open>n1\<close>,
  the same node id) leaves the session in the same state as the node added when already
  ready: the same device registry, the same entity-discovered signals, the same
  platform-setup tasks, migrated values, bus events, listeners and ready waiters,
  provided that the node has no waiter registered before it is added and that a
  location it has when it is added is its location when it is ready. The one
  difference between the paths is the device signal that the first registration
  dispatched.
\<close>

theorem readiness_paths_agree:
  assumes "\<not> ready n0" and "ready n1" and "node_id n1 = node_id n0"
    and "node_id n0 \<notin> set (ready_waiters s)"
    and "truthy (location n0) \<longrightarrow> location n1 = location n0"
  shows "let sA = node_ready_event e entry client n1 (snd (async_on_node_added e entry client n0 s));
             sB = snd (async_on_node_added e entry client n1 s)
         in dev_reg sA = dev_reg sB
            \<and> entity_signals (dispatcher sA) = entity_signals (dispatcher sB)
            \<and> platform_setup_tasks sA = platform_setup_tasks sB
            \<and> migrated sA = migrated sB
            \<and> bus sA = bus sB
            \<and> unsubscribe_callbacks sA = unsubscribe_callbacks sB
            \<and> ready_waiters sA = ready_waiters sB"
proof -
  let ?s0 = "register_node_in_dev_reg entry client n0 s"
  have A: "node_ready_event e entry client n1 (snd (async_on_node_added e entry client n0 s))
      = snd (async_on_node_ready e entry client n1 ?s0)"
    using assms(1,3,4) by (rule added_then_ready)
  have B: "snd (async_on_node_added e entry client n1 s)
      = snd (async_on_node_ready e entry client n1 s)"
    using assms(2) by (simp add: async_on_node_added_def)
  from assms(5) have loc: "truthy (location n0) \<longrightarrow> truthy (location n1)"
    by auto
  have reg: "register_node_in_dev_reg entry client n1 ?s0
      = (register_node_in_dev_reg entry client n1 s)
         \<lparr>dispatcher := dispatcher s @
            [EVENT_DEVICE_ADDED_TO_REGISTRY
               (fst (async_get_or_create (dev_reg s) (node_params entry client n0))),
             EVENT_DEVICE_ADDED_TO_REGISTRY
               (fst (async_get_or_create (dev_reg s) (node_params entry client n1)))]\<rparr>"
    using assms(3) loc by (rule register_node_twice)
  let ?ds = "async_discover_values e n1"
  have "same_registry_and_entities (register_node_in_dev_reg entry client n1 ?s0)
          (register_node_in_dev_reg entry client n1 s)"
    unfolding reg
    by (simp add: same_registry_and_entities_def register_node_unfold entity_signals_append)
  from discovery_loop_same [OF this, of e entry ?ds]
  have "same_registry_and_entities (snd (async_on_node_ready e entry client n1 ?s0))
          (snd (async_on_node_ready e entry client n1 s))"
    by (cases "fst (discovery_loop e entry ?ds (register_node_in_dev_reg entry client n1 s))")
      (simp_all add: async_on_node_ready_def Let_def split_beta same_registry_and_entities_def)
  then show ?thesis
    by (simp add: A B Let_def same_registry_and_entities_def)
qed

theorem readiness_paths_agree_witness:
  "\<not> ready (ex_located_unready_node ''Kitchen'') \<and> ready (ex_located_node ''Kitchen'')
   \<and> truthy (location (ex_located_unready_node ''Kitchen''))
   \<and> firmware_version (ex_located_unready_node ''Kitchen'') = None
   \<and> firmware_version (ex_located_node ''Kitchen'') = Some ''1.0''
   \<and> dev_reg (node_ready_event ex_env ex_entry ex_client (ex_located_node ''Kitchen'')
        (snd (async_on_node_added ex_env ex_entry ex_client
                (ex_located_unready_node ''Kitchen'') ex_session)))
     = dev_reg (snd (async_on_node_added ex_env ex_entry ex_client
                       (ex_located_node ''Kitchen'') ex_session))
   \<and> entity_signals (dispatcher
        (node_ready_event ex_env ex_entry ex_client (ex_located_node ''Kitchen'')
           (snd (async_on_node_added ex_env ex_entry ex_client
                   (ex_located_unready_node ''Kitchen'') ex_session))))
     = [(''zwave_js_entry1_add_light'', ex_disc_info)]
   \<and> platform_setup_tasks
        (node_ready_event ex_env ex_entry ex_client (ex_located_node ''Kitchen'')
           (snd (async_on_node_added ex_env ex_entry ex_client
                   (ex_located_unready_node ''Kitchen'') ex_session)))
     = platform_setup_tasks
         (snd (async_on_node_added ex_env ex_entry ex_client
                 (ex_located_node ''Kitchen'') ex_session))"
proof -
  have h: "\<not> ready (ex_located_unready_node ''Kitchen'')" "ready (ex_located_node ''Kitchen'')"
    "node_id (ex_located_node ''Kitchen'') = node_id (ex_located_unready_node ''Kitchen'')"
    "node_id (ex_located_unready_node ''Kitchen'') \<notin> set (ready_waiters ex_session)"
    "truthy (location (ex_located_unready_node ''Kitchen'')) \<longrightarrow>
       location (ex_located_node ''Kitchen'') = location (ex_located_unready_node ''Kitchen'')"
    by (simp_all add: ex_located_unready_node_def ex_located_node_def ex_unready_node_def
        ex_node_def ex_session_def)
  have m: "truthy (location (ex_located_unready_node ''Kitchen''))"
    "firmware_version (ex_located_unready_node ''Kitchen'') = None"
    "firmware_version (ex_located_node ''Kitchen'') = Some ''1.0''"
    by (simp_all add: ex_located_unready_node_def ex_located_node_def ex_unready_node_def
        ex_node_def)
  from readiness_paths_agree [OF h, of ex_env ex_entry ex_client] h(1,2) m
  show ?thesis
    by (simp add: Let_def ex_added_ready_entities)
qed

text \<open>
  The claim as stated fails: node 5 is added with the location Kitchen while not ready
  and has no location when it is reported ready. Its device keeps the area of the
  first registration; added when ready, it has none.
\<close>

theorem readiness_paths_counterexample:
  "\<not> ready (ex_located_unready_node ''Kitchen'') \<and> ready (ex_node 5 True)
   \<and> node_id (ex_node 5 True) = node_id (ex_located_unready_node ''Kitchen'')
   \<and> map suggested_area (devices (dev_reg
        (node_ready_event ex_env ex_entry ex_client (ex_node 5 True)
           (snd (async_on_node_added ex_env ex_entry ex_client
                   (ex_located_unready_node ''Kitchen'') ex_session)))))
     = [None, None, None, Some ''Kitchen'']
   \<and> map suggested_area (devices (dev_reg
        (snd (async_on_node_added ex_env ex_entry ex_client (ex_node 5 True) ex_session))))
     = [None, None, None, None]
   \<and> dev_reg (node_ready_event ex_env ex_entry ex_client (ex_node 5 True)
        (snd (async_on_node_added ex_env ex_entry ex_client
                (ex_located_unready_node ''Kitchen'') ex_session)))
     \<noteq> dev_reg (snd (async_on_node_added ex_env ex_entry ex_client (ex_node 5 True) ex_session))"
proof -
  let ?n0 = "ex_located_unready_node ''Kitchen''"
  let ?n1 = "ex_node 5 True"
  let ?p0 = "node_params ex_entry ex_client ?n0"
  let ?p1 = "node_params ex_entry ex_client ?n1"
  let ?reg = "dev_reg ex_session"
  let ?A = "node_ready_event ex_env ex_entry ex_client ?n1
              (snd (async_on_node_added ex_env ex_entry ex_client ?n0 ex_session))"
  let ?B = "snd (async_on_node_added ex_env ex_entry ex_client ?n1 ex_session)"
  have h: "\<not> ready ?n0" "ready ?n1" "node_id ?n1 = node_id ?n0"
    "node_id ?n0 \<notin> set (ready_waiters ex_session)"
    by (simp_all add: ex_located_unready_node_def ex_unready_node_def ex_node_def ex_session_def)
  have ids: "p_identifiers ?p0 = {(1, 5)}" "p_identifiers ?p1 = {(1, 5)}"
    by (simp_all add: node_params_def get_device_id_def ex_client_def
        ex_located_unready_node_def ex_unready_node_def ex_node_def)
  have area: "p_suggested_area ?p0 = Some ''Kitchen''" "p_suggested_area ?p1 = None"
    by (simp_all add: node_params_def ex_located_unready_node_def ex_unready_node_def ex_node_def)
  have none: "async_get_device ?reg {(1, 5)} = None"
    by (simp add: async_get_device_def ex_session_def ex_device_def)
  have old: "map suggested_area (devices ?reg) = [None, None, None]"
    by (simp add: ex_session_def ex_device_def)
  let ?s0 = "register_node_in_dev_reg ex_entry ex_client ?n0 ex_session"
  have eqA: "?A = snd (async_on_node_ready ex_env ex_entry ex_client ?n1 ?s0)"
    using h(1,3,4) by (rule added_then_ready)
  have reg0: "dev_reg ?s0 = snd (async_get_or_create ?reg ?p0)"
    by (simp add: register_node_unfold)
  have "dev_reg ?A = dev_reg (snd (async_on_node_ready ex_env ex_entry ex_client ?n1 ?s0))"
    by (simp only: eqA)
  also have "\<dots> = snd (async_get_or_create (dev_reg ?s0) ?p1)"
    by (rule node_ready_dev_reg)
  also have "\<dots> = snd (async_get_or_create (snd (async_get_or_create ?reg ?p0)) ?p1)"
    by (simp only: reg0)
  also have "\<dots> = ?reg\<lparr>devices := devices ?reg @ [updated_device (new_device (devices ?reg) ?p0) ?p1]\<rparr>"
    by (rule get_or_create_new_then) (simp_all only: ids none, simp)
  finally have a: "map suggested_area (devices (dev_reg ?A)) = [None, None, None, Some ''Kitchen'']"
    by (simp add: old area updated_device_def new_device_def)
  have eqB: "?B = snd (async_on_node_ready ex_env ex_entry ex_client ?n1 ex_session)"
    using h(2) by (simp add: async_on_node_added_def)
  have "dev_reg ?B = dev_reg (snd (async_on_node_ready ex_env ex_entry ex_client ?n1 ex_session))"
    by (simp only: eqB)
  also have "\<dots> = snd (async_get_or_create ?reg ?p1)"
    by (rule node_ready_dev_reg)
  also have "\<dots> = ?reg\<lparr>devices := devices ?reg @ [new_device (devices ?reg) ?p1]\<rparr>"
    by (rule get_or_create_new) (simp only: ids none)
  finally have b: "map suggested_area (devices (dev_reg ?B)) = [None, None, None, None]"
    by (simp add: old area new_device_def)
  from a b have "dev_reg ?A \<noteq> dev_reg ?B"
    by auto
  with a b h(1,2,3) show ?thesis
    by simp
qed

section \<open>Shutdown: the order of cancelling, joining and disconnecting\<close>

lemma gather_effects: "effects (snd (gather cs sched l)) = effects l"
  by (induction cs sched l rule: gather.induct)
     (auto simp: run_task_def split: option.splits)

lemma gather_returned:
  "fst (gather cs sched l) = Some (Inr ()) \<Longrightarrow>
   \<forall>c \<in> set cs. status (tasks (snd (gather cs sched l)) c) = Returned"
  by (induction cs sched l rule: gather.induct)
     (auto simp: list_all_iff split: option.splits if_splits)

lemma fold_cancel_effects:
  "effects (fold task_cancel ts l) = effects l @ map TaskCancel ts"
  by (induction ts arbitrary: l) (simp_all add: task_cancel_def)

lemma ex_disconnect_effects:
  "effects (snd (disconnect_client ex_hass_data ex_entry ex_client 0 1 [0, 1] ex_loop))
     = [TaskCancel 0, TaskCancel 1, TaskCancel 2, TransportDisconnect,
        Logged LogInfo ''Disconnected from Zwave JS Server'']"
  by (simp add: disconnect_client_def task_cancel_def run_task_def Let_def
      ex_loop_def ex_hass_data_def ex_entry_def ex_client_def)

text \<open>
  C7. \<open>disconnect_client\<close> first requests the cancellation of the listen task, of the
  start-platforms task and of every platform-setup task of the entry, in this order, and
  then awaits them all. The transport's \<^verbatim>\<open>disconnect()\<close> is invoked after that or not
  at all, and when it is invoked every one of these tasks has ended by returning: it is
  never invoked while one of them still runs. (When a task ends cancelled or with an
  exception, \<^verbatim>\<open>gather\<close> raises and \<^verbatim>\<open>disconnect()\<close> is not invoked.)
\<close>

theorem disconnect_after_tasks_stopped:
  "\<exists>tail. effects (snd (disconnect_client hass_data entry client listen_task platform_task sched l))
        = effects l
          @ map TaskCancel (dependent_tasks hass_data entry listen_task platform_task) @ tail
     \<and> (tail = [] \<or>
         tail = [TransportDisconnect, Logged LogInfo ''Disconnected from Zwave JS Server'']
         \<and> (\<forall>t \<in> set (dependent_tasks hass_data entry listen_task platform_task).
               status (tasks (snd (disconnect_client hass_data entry client listen_task
                                     platform_task sched l)) t) = Returned))"
proof -
  let ?ps = "map snd (case hass_data (entry_id entry) of None \<Rightarrow> [] | Some d \<Rightarrow> d)"
  let ?cs = "listen_task # platform_task # ?ps"
  let ?l3 = "fold task_cancel ?ps (task_cancel platform_task (task_cancel listen_task l))"
  let ?g = "gather ?cs sched ?l3"
  have e3: "effects ?l3 = effects l @ map TaskCancel ?cs"
    by (simp add: fold_cancel_effects task_cancel_def)
  have e4: "effects (snd ?g) = effects l @ map TaskCancel ?cs"
    by (simp only: gather_effects e3)
  show ?thesis
  proof (cases "fst ?g = Some (Inr ()) \<and> connected client")
    case True
    then have "\<forall>c \<in> set ?cs. status (tasks (snd ?g) c) = Returned"
      by (intro gather_returned) simp
    with True e4 show ?thesis
      by (simp add: disconnect_client_def dependent_tasks_def Let_def split_beta)
  next
    case False
    with e4 show ?thesis
      by (auto simp: disconnect_client_def dependent_tasks_def Let_def split_beta
          split: option.splits sum.splits)
  qed
qed

theorem disconnect_after_tasks_stopped_witness:
  "effects (snd (disconnect_client ex_hass_data ex_entry ex_client 0 1 [0, 1] ex_loop))
     = [TaskCancel 0, TaskCancel 1, TaskCancel 2, TransportDisconnect,
        Logged LogInfo ''Disconnected from Zwave JS Server'']
   \<and> status (tasks (snd (disconnect_client ex_hass_data ex_entry ex_client 0 1 [0, 1] ex_loop)) 0)
       = Returned
   \<and> status (tasks (snd (disconnect_client ex_hass_data ex_entry ex_client 0 1 [0, 1] ex_loop)) 1)
       = Returned
   \<and> status (tasks (snd (disconnect_client ex_hass_data ex_entry ex_client 0 1 [0, 1] ex_loop)) 2)
       = Returned"
proof -
  have deps: "dependent_tasks ex_hass_data ex_entry 0 1 = [0, 1, 2]"
    by (simp add: dependent_tasks_def ex_hass_data_def ex_entry_def)
  from disconnect_after_tasks_stopped [of ex_hass_data ex_entry ex_client 0 1 "[0, 1]" ex_loop]
  obtain tail where
    t: "effects (snd (disconnect_client ex_hass_data ex_entry ex_client 0 1 [0, 1] ex_loop))
          = effects ex_loop @ map TaskCancel [0, 1, 2] @ tail"
    and d: "tail = [] \<or>
         tail = [TransportDisconnect, Logged LogInfo ''Disconnected from Zwave JS Server'']
         \<and> (\<forall>t \<in> set [0, 1, 2].
               status (tasks (snd (disconnect_client ex_hass_data ex_entry ex_client 0 1 [0, 1]
                                     ex_loop)) t) = Returned)"
    unfolding deps by blast
  have e0: "effects ex_loop = []"
    by (simp add: ex_loop_def)
  from t have "tail \<noteq> []"
    unfolding ex_disconnect_effects e0 by auto
  with d ex_disconnect_effects show ?thesis
    by simp
qed

section \<open>DiscoveryReconciler: one setup task for a platform\<close>

lemma created_platforms_append:
  "created_platforms (xs @ ys) = created_platforms xs @ created_platforms ys"
  by (induction xs rule: created_platforms.induct) simp_all

lemma map_of_task_map:
  assumes "map fst m = map fst ts" and "map snd m = [0..<length ts]" and "distinct (map fst ts)"
  shows "map_of m p = Some tid \<longleftrightarrow> tid < length ts \<and> fst (ts ! tid) = p"
proof -
  have len: "length m = length ts"
    using assms(1) by (metis length_map)
  have m: "m = zip (map fst ts) [0..<length ts]"
    using assms(1,2) by (metis zip_map_fst_snd)
  have d: "distinct (map fst m)"
    using assms(1,3) by simp
  show ?thesis
  proof
    assume "map_of m p = Some tid"
    then have "(p, tid) \<in> set m" by (rule map_of_SomeD)
    then obtain k where "k < length m" "m ! k = (p, tid)"
      by (auto simp: in_set_conv_nth)
    then show "tid < length ts \<and> fst (ts ! tid) = p"
      using len by (subst (asm) (2) m) auto
  next
    assume a: "tid < length ts \<and> fst (ts ! tid) = p"
    then have "m ! tid = (p, tid)"
      by (subst m) simp
    with a len have "(p, tid) \<in> set m"
      by (metis nth_mem)
    with d show "map_of m p = Some tid"
      by simp
  qed
qed

lemma advance_cases [consumes 1, case_names finished create existing raised publish]:
  assumes "advance i s = Some t"
  obtains
    "i < length (d_passes s)" and "d_passes s ! i = Looping []"
      and "t = s\<lparr>d_passes := (d_passes s)[i := PassDone]\<rparr>"
  | d ds where "i < length (d_passes s)" and "d_passes s ! i = Looping (d # ds)"
      and "map_of (d_platform_setup_tasks s) (platform d) = None"
      and "t = s\<lparr>d_tasks := d_tasks s @ [(platform d, TaskPending)],
                 d_platform_setup_tasks :=
                   d_platform_setup_tasks s @ [(platform d, length (d_tasks s))],
                 d_passes := (d_passes s)[i := Awaiting (length (d_tasks s)) d ds],
                 d_history := d_history s @
                   [Migrated i d, SetupTaskCreated (length (d_tasks s)) (platform d)]\<rparr>"
  | d ds tid where "i < length (d_passes s)" and "d_passes s ! i = Looping (d # ds)"
      and "map_of (d_platform_setup_tasks s) (platform d) = Some tid"
      and "t = s\<lparr>d_passes := (d_passes s)[i := Awaiting tid d ds],
                 d_history := d_history s @ [Migrated i d]\<rparr>"
  | tid d ds err where "i < length (d_passes s)" and "d_passes s ! i = Awaiting tid d ds"
      and "tid < length (d_tasks s)" and "snd (d_tasks s ! tid) = TaskDone (Inl err)"
      and "t = s\<lparr>d_passes := (d_passes s)[i := PassRaised err]\<rparr>"
  | tid d ds b where "i < length (d_passes s)" and "d_passes s ! i = Awaiting tid d ds"
      and "tid < length (d_tasks s)" and "snd (d_tasks s ! tid) = TaskDone (Inr b)"
      and "t = s\<lparr>d_passes := (d_passes s)[i := Looping ds],
                 d_history := d_history s @ [Published i d]\<rparr>"
  using assms unfolding advance_def
  by (auto split: if_splits pass.splits list.splits option.splits setup_task.splits sum.splits)

lemma published_inv_snoc:
  assumes "published_inv s" and "d_history t = d_history s @ [ev]"
    and "\<And>i d. ev = Published i d \<Longrightarrow>
           \<exists>tid b. SetupTaskEnded tid (platform d) (Inr b) \<in> set (d_history s)"
  shows "published_inv t"
  unfolding published_inv_def
proof (intro allI impI)
  fix h1 i d h2
  assume eq: "d_history t = h1 @ Published i d # h2"
  show "\<exists>tid b. SetupTaskEnded tid (platform d) (Inr b) \<in> set h1"
  proof (cases h2 rule: rev_cases)
    case Nil
    with eq assms(2) have "d_history s = h1" "ev = Published i d" by simp_all
    with assms(3) show ?thesis by blast
  next
    case (snoc h2' x)
    with eq assms(2) have "d_history s = h1 @ Published i d # h2'" by simp
    with assms(1) show ?thesis unfolding published_inv_def by blast
  qed
qed

lemma inv_start_pass:
  assumes "discovery_inv s"
  shows "discovery_inv (s\<lparr>d_passes := d_passes s @ [Looping ds]\<rparr>)"
proof -
  let ?t = "s\<lparr>d_passes := d_passes s @ [Looping ds]\<rparr>"
  have "awaiting_inv ?t"
    unfolding awaiting_inv_def
  proof (intro allI impI)
    fix i tid d ds'
    assume i: "i < length (d_passes ?t)" and a: "d_passes ?t ! i = Awaiting tid d ds'"
    then have "i < length (d_passes s)" "d_passes s ! i = Awaiting tid d ds'"
      by (auto simp: nth_append split: if_splits)
    with assms show "map_of (d_platform_setup_tasks ?t) (platform d) = Some tid"
      by (simp add: discovery_inv_def awaiting_inv_def)
  qed
  with assms show ?thesis
    by (simp add: discovery_inv_def tasks_inv_def ended_inv_def published_inv_def)
qed

lemma awaiting_inv_update:
  assumes "awaiting_inv s"
    and "\<And>tid d ds. p = Awaiting tid d ds \<Longrightarrow>
           map_of (d_platform_setup_tasks s) (platform d) = Some tid"
  shows "awaiting_inv (s\<lparr>d_passes := (d_passes s)[i := p]\<rparr>)"
  unfolding awaiting_inv_def
proof (intro allI impI)
  let ?t = "s\<lparr>d_passes := (d_passes s)[i := p]\<rparr>"
  fix j tid d ds
  assume j: "j < length (d_passes ?t)" and a: "d_passes ?t ! j = Awaiting tid d ds"
  show "map_of (d_platform_setup_tasks ?t) (platform d) = Some tid"
  proof (cases "j = i")
    case True
    with j a have "p = Awaiting tid d ds" by simp
    then show ?thesis using assms(2) by simp
  next
    case False
    with j a have "j < length (d_passes s)" "d_passes s ! j = Awaiting tid d ds" by simp_all
    with assms(1) show ?thesis by (simp add: awaiting_inv_def)
  qed
qed

lemma inv_passes_update:
  assumes "discovery_inv s" and "\<And>tid d ds. p \<noteq> Awaiting tid d ds"
  shows "discovery_inv (s\<lparr>d_passes := (d_passes s)[i := p]\<rparr>)"
proof -
  from assms(1) have "awaiting_inv s"
    by (simp add: discovery_inv_def)
  then have "awaiting_inv (s\<lparr>d_passes := (d_passes s)[i := p]\<rparr>)"
  proof (rule awaiting_inv_update)
    fix tid d ds
    assume "p = Awaiting tid d ds"
    with assms(2) show "map_of (d_platform_setup_tasks s) (platform d) = Some tid"
      by blast
  qed
  with assms(1) show ?thesis
    by (simp add: discovery_inv_def tasks_inv_def ended_inv_def published_inv_def)
qed

lemma inv_existing:
  assumes inv: "discovery_inv s"
    and m: "map_of (d_platform_setup_tasks s) (platform d) = Some tid"
  shows "discovery_inv (s\<lparr>d_passes := (d_passes s)[i := Awaiting tid d ds],
                          d_history := d_history s @ [Migrated i d]\<rparr>)"
proof -
  let ?u = "s\<lparr>d_passes := (d_passes s)[i := Awaiting tid d ds]\<rparr>"
  let ?t = "?u\<lparr>d_history := d_history s @ [Migrated i d]\<rparr>"
  have "awaiting_inv ?u"
    using inv m by (intro awaiting_inv_update) (simp_all add: discovery_inv_def)
  then have a: "awaiting_inv ?t"
    by (simp add: awaiting_inv_def)
  from inv have "published_inv s"
    by (simp add: discovery_inv_def)
  then have p: "published_inv ?t"
    by (rule published_inv_snoc [where ev = "Migrated i d"]) simp_all
  from inv have "tasks_inv ?t" "ended_inv ?t"
    by (simp_all add: discovery_inv_def tasks_inv_def ended_inv_def created_platforms_append)
  with a p show ?thesis
    by (simp add: discovery_inv_def)
qed

lemma inv_publish:
  assumes inv: "discovery_inv s"
    and i: "i < length (d_passes s)" and a: "d_passes s ! i = Awaiting tid d ds"
    and tid: "tid < length (d_tasks s)" and fin: "snd (d_tasks s ! tid) = TaskDone (Inr b)"
  shows "discovery_inv (s\<lparr>d_passes := (d_passes s)[i := Looping ds],
                          d_history := d_history s @ [Published i d]\<rparr>)"
proof -
  let ?u = "s\<lparr>d_passes := (d_passes s)[i := Looping ds]\<rparr>"
  let ?t = "?u\<lparr>d_history := d_history s @ [Published i d]\<rparr>"
  have "awaiting_inv ?u"
    using inv by (intro awaiting_inv_update) (simp_all add: discovery_inv_def)
  then have aw: "awaiting_inv ?t"
    by (simp add: awaiting_inv_def)
  from inv i a have m: "map_of (d_platform_setup_tasks s) (platform d) = Some tid"
    by (simp add: discovery_inv_def awaiting_inv_def)
  from inv have t: "map fst (d_platform_setup_tasks s) = map fst (d_tasks s)"
    "map snd (d_platform_setup_tasks s) = [0..<length (d_tasks s)]"
    "distinct (map fst (d_tasks s))"
    by (simp_all add: discovery_inv_def tasks_inv_def)
  from map_of_task_map [OF t] m have "fst (d_tasks s ! tid) = platform d"
    by blast
  moreover from inv have "ended_inv s"
    by (simp add: discovery_inv_def)
  ultimately have ended: "SetupTaskEnded tid (platform d) (Inr b) \<in> set (d_history s)"
    using tid fin unfolding ended_inv_def by metis
  from inv have "published_inv s"
    by (simp add: discovery_inv_def)
  then have p: "published_inv ?t"
  proof (rule published_inv_snoc [where ev = "Published i d"])
    show "d_history ?t = d_history s @ [Published i d]"
      by simp
  next
    fix j d'
    assume "Published i d = Published j d'"
    with ended show "\<exists>tid b. SetupTaskEnded tid (platform d') (Inr b) \<in> set (d_history s)"
      by auto
  qed
  from inv have "tasks_inv ?t" "ended_inv ?t"
    by (simp_all add: discovery_inv_def tasks_inv_def ended_inv_def created_platforms_append)
  with aw p show ?thesis
    by (simp add: discovery_inv_def)
qed

lemma inv_create:
  assumes inv: "discovery_inv s"
    and m: "map_of (d_platform_setup_tasks s) (platform d) = None"
  shows "discovery_inv
           (s\<lparr>d_tasks := d_tasks s @ [(platform d, TaskPending)],
              d_platform_setup_tasks :=
                d_platform_setup_tasks s @ [(platform d, length (d_tasks s))],
              d_passes := (d_passes s)[i := Awaiting (length (d_tasks s)) d ds],
              d_history := d_history s @
                [Migrated i d, SetupTaskCreated (length (d_tasks s)) (platform d)]\<rparr>)"
proof -
  let ?n = "length (d_tasks s)"
  let ?m = "d_platform_setup_tasks s @ [(platform d, ?n)]"
  let ?t = "s\<lparr>d_tasks := d_tasks s @ [(platform d, TaskPending)],
              d_platform_setup_tasks := ?m,
              d_passes := (d_passes s)[i := Awaiting ?n d ds],
              d_history := d_history s @ [Migrated i d, SetupTaskCreated ?n (platform d)]\<rparr>"
  from inv have t: "map fst (d_platform_setup_tasks s) = map fst (d_tasks s)"
    "map snd (d_platform_setup_tasks s) = [0..<?n]"
    "distinct (map fst (d_tasks s))"
    "created_platforms (d_history s) = map fst (d_tasks s)"
    by (simp_all add: discovery_inv_def tasks_inv_def)
  from m have "platform d \<notin> fst ` set (d_platform_setup_tasks s)"
    by (simp add: map_of_eq_None_iff)
  with t(1) have fresh: "platform d \<notin> set (map fst (d_tasks s))"
    by (metis set_map)
  have ti: "tasks_inv ?t"
    using t fresh by (simp add: tasks_inv_def created_platforms_append)
  have keep: "map_of ?m p = Some tid" if "map_of (d_platform_setup_tasks s) p = Some tid" for p tid
    using that by (simp add: map_add_Some_iff)
  have new: "map_of ?m (platform d) = Some ?n"
    using m by (simp add: map_add_Some_iff)
  have aw: "awaiting_inv ?t"
    unfolding awaiting_inv_def
  proof (intro allI impI)
    fix j tid d' ds'
    assume j: "j < length (d_passes ?t)" and a: "d_passes ?t ! j = Awaiting tid d' ds'"
    show "map_of (d_platform_setup_tasks ?t) (platform d') = Some tid"
    proof (cases "j = i")
      case True
      with j a have "tid = ?n" "d' = d" by simp_all
      with new show ?thesis by simp
    next
      case False
      with j a have "j < length (d_passes s)" "d_passes s ! j = Awaiting tid d' ds'" by simp_all
      with inv have "map_of (d_platform_setup_tasks s) (platform d') = Some tid"
        by (simp add: discovery_inv_def awaiting_inv_def)
      then show ?thesis using keep by simp
    qed
  qed
  from inv have e: "ended_inv s"
    by (simp add: discovery_inv_def)
  have en: "ended_inv ?t"
    unfolding ended_inv_def
  proof (intro allI impI)
    fix tid r
    assume tid: "tid < length (d_tasks ?t)" and r: "snd (d_tasks ?t ! tid) = TaskDone r"
    then have "tid < ?n"
      by (cases "tid = ?n") simp_all
    with r e have "SetupTaskEnded tid (fst (d_tasks s ! tid)) r \<in> set (d_history s)"
      by (simp add: ended_inv_def nth_append)
    with \<open>tid < ?n\<close> show "SetupTaskEnded tid (fst (d_tasks ?t ! tid)) r \<in> set (d_history ?t)"
      by (simp add: nth_append)
  qed
  let ?u = "s\<lparr>d_history := d_history s @ [Migrated i d]\<rparr>"
  from inv have "published_inv s"
    by (simp add: discovery_inv_def)
  then have "published_inv ?u"
    by (rule published_inv_snoc [where ev = "Migrated i d"]) simp_all
  then have pu: "published_inv ?t"
    by (rule published_inv_snoc [where ev = "SetupTaskCreated ?n (platform d)"]) simp_all
  from ti aw en pu show ?thesis
    by (simp add: discovery_inv_def)
qed

lemma inv_setup_ends:
  assumes inv: "discovery_inv s" and tid: "tid < length (d_tasks s)"
  shows "discovery_inv
           (s\<lparr>d_tasks := (d_tasks s)[tid := (fst (d_tasks s ! tid), TaskDone r)],
              d_history := d_history s @ [SetupTaskEnded tid (fst (d_tasks s ! tid)) r]\<rparr>)"
proof -
  let ?ts = "(d_tasks s)[tid := (fst (d_tasks s ! tid), TaskDone r)]"
  let ?ev = "SetupTaskEnded tid (fst (d_tasks s ! tid)) r"
  let ?t = "s\<lparr>d_tasks := ?ts, d_history := d_history s @ [?ev]\<rparr>"
  have fsts: "map fst ?ts = map fst (d_tasks s)"
    using tid by (simp add: map_update list_update_same_conv)
  from inv have ti: "tasks_inv ?t"
    by (simp add: discovery_inv_def tasks_inv_def fsts created_platforms_append)
  from inv have aw: "awaiting_inv ?t"
    by (simp add: discovery_inv_def awaiting_inv_def)
  from inv have e: "ended_inv s"
    by (simp add: discovery_inv_def)
  have en: "ended_inv ?t"
    unfolding ended_inv_def
  proof (intro allI impI)
    fix k r'
    assume k: "k < length (d_tasks ?t)" and r': "snd (d_tasks ?t ! k) = TaskDone r'"
    show "SetupTaskEnded k (fst (d_tasks ?t ! k)) r' \<in> set (d_history ?t)"
    proof (cases "k = tid")
      case True
      with k r' show ?thesis by simp
    next
      case False
      with k r' e have "SetupTaskEnded k (fst (d_tasks s ! k)) r' \<in> set (d_history s)"
        by (simp add: ended_inv_def)
      with False show ?thesis by simp
    qed
  qed
  from inv have "published_inv s"
    by (simp add: discovery_inv_def)
  then have pu: "published_inv ?t"
    by (rule published_inv_snoc [where ev = ?ev]) simp_all
  from ti aw en pu show ?thesis
    by (simp add: discovery_inv_def)
qed

lemma inv_init: "discovery_inv init_discovery"
  by (simp add: discovery_inv_def tasks_inv_def awaiting_inv_def ended_inv_def
      published_inv_def init_discovery_def)

lemma inv_step:
  assumes "discovery_inv s" and "step a s = Some t"
  shows "discovery_inv t"
proof (cases a)
  case (StartPass ds)
  with assms show ?thesis
    by (auto intro: inv_start_pass)
next
  case (Advance i)
  with assms(2) have "advance i s = Some t" by simp
  then show ?thesis
  proof (cases rule: advance_cases)
    case finished
    with assms(1) show ?thesis by (simp add: inv_passes_update)
  next
    case (create d ds)
    with assms(1) show ?thesis by (simp add: inv_create)
  next
    case (existing d ds tid)
    with assms(1) show ?thesis by (simp add: inv_existing)
  next
    case (raised tid d ds err)
    with assms(1) show ?thesis by (simp add: inv_passes_update)
  next
    case (publish tid d ds b)
    with assms(1) show ?thesis by (simp add: inv_publish)
  qed
next
  case (SetupEnds tid r)
  with assms show ?thesis
    by (auto simp: setup_ends_def inv_setup_ends split: if_splits)
qed

lemma inv_run:
  assumes "discovery_inv s" and "run acts s = Some t"
  shows "discovery_inv t"
  using assms
proof (induction acts arbitrary: s)
  case Nil
  then show ?case by simp
next
  case (Cons a acts)
  from Cons.prems(2) obtain u where u: "step a s = Some u" "run acts u = Some t"
    by (auto split: option.splits)
  from Cons.prems(1) u(1) have "discovery_inv u" by (rule inv_step)
  then show ?case using u(2) by (rule Cons.IH)
qed

lemma distinct_count_list: "distinct xs \<Longrightarrow> count_list xs x \<le> 1"
  by (induction xs) (auto simp: count_list_0_iff)

lemma advance_existing:
  assumes "i < length (d_passes s)" and "d_passes s ! i = Looping (d # ds)"
    and "map_of (d_platform_setup_tasks s) (platform d) = Some tid"
  shows "step (Advance i) s =
           Some (s\<lparr>d_passes := (d_passes s)[i := Awaiting tid d ds],
                   d_history := d_history s @ [Migrated i d]\<rparr>)"
  using assms by (simp add: advance_def)

lemma ex_run: "run ex_actions init_discovery = Some ex_discovered"
  by (simp add: ex_actions_def init_discovery_def ex_discovered_def advance_def setup_ends_def)

text \<open>
  C3. In every state that the discovery passes of an entry can reach, however their
  steps interleave: at most one setup task has been created for a platform; a pass that
  comes to a descriptor whose platform has a task creates none and waits for that
  task; a waiting pass waits for the one task of its descriptor's platform; and every
  published descriptor comes after the successful end of the setup task of its
  platform.
\<close>

theorem setup_task_once_per_platform:
  assumes "run acts init_discovery = Some s"
  shows "(\<forall>p. count_list (created_platforms (d_history s)) p \<le> 1)
     \<and> (\<forall>p. count_list (map fst (d_tasks s)) p \<le> 1)
     \<and> (\<forall>i d ds tid. i < length (d_passes s) \<and> d_passes s ! i = Looping (d # ds)
            \<and> map_of (d_platform_setup_tasks s) (platform d) = Some tid \<longrightarrow>
          (\<exists>t. step (Advance i) s = Some t \<and> d_tasks t = d_tasks s
               \<and> d_platform_setup_tasks t = d_platform_setup_tasks s
               \<and> created_platforms (d_history t) = created_platforms (d_history s)
               \<and> d_passes t ! i = Awaiting tid d ds))
     \<and> (\<forall>i tid d ds. i < length (d_passes s) \<and> d_passes s ! i = Awaiting tid d ds \<longrightarrow>
          map_of (d_platform_setup_tasks s) (platform d) = Some tid
          \<and> tid < length (d_tasks s) \<and> fst (d_tasks s ! tid) = platform d)
     \<and> (\<forall>h1 i d h2. d_history s = h1 @ Published i d # h2 \<longrightarrow>
          (\<exists>tid b. SetupTaskEnded tid (platform d) (Inr b) \<in> set h1))"
proof -
  from inv_init assms have inv: "discovery_inv s"
    by (rule inv_run)
  then have t: "map fst (d_platform_setup_tasks s) = map fst (d_tasks s)"
    "map snd (d_platform_setup_tasks s) = [0..<length (d_tasks s)]"
    "distinct (map fst (d_tasks s))"
    "created_platforms (d_history s) = map fst (d_tasks s)"
    by (simp_all add: discovery_inv_def tasks_inv_def)
  have one: "\<forall>p. count_list (map fst (d_tasks s)) p \<le> 1"
    using t(3) by (blast intro: distinct_count_list)
  have created: "\<forall>p. count_list (created_platforms (d_history s)) p \<le> 1"
    using one by (simp add: t(4))
  have existing: "\<exists>t. step (Advance i) s = Some t \<and> d_tasks t = d_tasks s
               \<and> d_platform_setup_tasks t = d_platform_setup_tasks s
               \<and> created_platforms (d_history t) = created_platforms (d_history s)
               \<and> d_passes t ! i = Awaiting tid d ds"
    if "i < length (d_passes s) \<and> d_passes s ! i = Looping (d # ds)
            \<and> map_of (d_platform_setup_tasks s) (platform d) = Some tid" for i d ds tid
  proof -
    from that have "step (Advance i) s =
           Some (s\<lparr>d_passes := (d_passes s)[i := Awaiting tid d ds],
                   d_history := d_history s @ [Migrated i d]\<rparr>)"
      by (intro advance_existing) simp_all
    with that show ?thesis
      by (simp add: created_platforms_append)
  qed
  have awaiting: "map_of (d_platform_setup_tasks s) (platform d) = Some tid
          \<and> tid < length (d_tasks s) \<and> fst (d_tasks s ! tid) = platform d"
    if "i < length (d_passes s) \<and> d_passes s ! i = Awaiting tid d ds" for i tid d ds
  proof -
    from inv have "awaiting_inv s"
      by (simp add: discovery_inv_def)
    with that have m: "map_of (d_platform_setup_tasks s) (platform d) = Some tid"
      unfolding awaiting_inv_def by blast
    with map_of_task_map [OF t(1,2,3)] show ?thesis
      by blast
  qed
  from inv have published: "\<forall>h1 i d h2. d_history s = h1 @ Published i d # h2 \<longrightarrow>
          (\<exists>tid b. SetupTaskEnded tid (platform d) (Inr b) \<in> set h1)"
    by (simp add: discovery_inv_def published_inv_def)
  from created one existing awaiting published show ?thesis
    by blast
qed

theorem setup_task_once_per_platform_witness:
  "run ex_actions init_discovery = Some ex_discovered
   \<and> count_list (created_platforms (d_history ex_discovered)) ''light'' \<le> 1
   \<and> count_list (map fst (d_tasks ex_discovered)) ''light'' \<le> 1
   \<and> (\<exists>tid b. SetupTaskEnded tid ''light'' (Inr b) \<in> set (take 5 (d_history ex_discovered)))"
proof -
  note t = setup_task_once_per_platform [OF ex_run]
  have h: "d_history ex_discovered =
      take 5 (d_history ex_discovered)
      @ Published 1 \<lparr>platform = ''light'', primary_value = ''4-level''\<rparr> # []"
    by (simp add: ex_discovered_def)
  from t have "\<forall>h1 i d h2. d_history ex_discovered = h1 @ Published i d # h2 \<longrightarrow>
          (\<exists>tid b. SetupTaskEnded tid (platform d) (Inr b) \<in> set h1)"
    by blast
  with h have "\<exists>tid b. SetupTaskEnded tid
        (platform \<lparr>platform = ''light'', primary_value = ''4-level''\<rparr>) (Inr b)
      \<in> set (take 5 (d_history ex_discovered))"
    by blast
  then have "\<exists>tid b. SetupTaskEnded tid ''light'' (Inr b) \<in> set (take 5 (d_history ex_discovered))"
    by simp
  with t ex_run show ?thesis
    by blast
qed

end
